theory Spec2Isabelle
  imports Main "HOL-Library.Multiset"
begin

section \<open>The package delivery validator (validator.py)\<close>

text \<open>
  A shallow embedding of the class \<open>Validator\<close> of \<open>validator.py\<close>. The two JSON
  documents are typed: a problem file carries the keys of its format, with \<open>capacity\<close>
  optional on a location; an action record may lack any of its keys, since the validator
  reads them with \<open>action_data[...]\<close> (which raises \<open>KeyError\<close>) or with \<open>.get\<close>.
  Identifiers are strings, times and capacities are Python integers, coordinates are
  pairs of integers.
\<close>

subsection \<open>The problem file and the action log\<close>

type_synonym pos = "int \<times> int"

record location =
  l_id :: string
  l_type :: string
  l_coordinates :: pos
  l_capacity :: "int option"

record courier =
  c_id :: string
  c_start_location :: string
  c_capacity :: int

record package =
  p_id :: string
  p_origin :: string
  p_destination :: string
  p_arrival_time :: int

record problem =
  dimensions :: pos
  map_locations :: "location list"
  in_couriers :: "courier list"
  in_packages :: "package list"

text \<open>An action record: \<open>None\<close> is a key that the JSON object does not have.\<close>

record action =
  a_time :: "int option"
  a_courier :: "string option"
  a_action :: "string option"
  a_location :: "string option"
  a_from :: "pos option"
  a_to :: "pos option"
  a_packages :: "string list option"

subsection \<open>Run-time state\<close>

text \<open>The four status strings that the validator stores in \<open>package_status\<close>.\<close>

datatype status = At_warehouse | With_courier | At_package_point | Delivered

record pkg_state =
  status :: status
  holder :: string
  ps_arrival_time :: int
  delivery_time :: "int option"

text \<open>
  The f-strings appended to \<open>self.errors\<close>, one constructor for each, with the values
  that the string interpolates. \<open>Error_loading_files\<close> stands for the message built from
  the exception text of the operating system or of the JSON parser.
\<close>

datatype message =
    Error_loading_files
  | Invalid_courier_ID string
  | Invalid_location_ID_for_wait string
  | Invalid_action_type string
  | Missing_required_field string
  | Invalid_location_ID string
  | Courier_not_at_location string string
  | Cannot_pick_up_from_non_warehouse string
  | Exceeding_courier_capacity string
  | Invalid_package_ID string
  | Package_origin_is_not string string
  | Package_not_at_warehouse string
  | Package_not_arrived string int
  | Cannot_drop_off_at_non_package_point string
  | Exceeding_package_point_capacity string
  | Courier_does_not_have string string
  | Cannot_deliver_to_non_destination string
  | Package_destination_is_not string string
  | Courier_not_at_position string pos
  | Invalid_move pos pos
  | Packages_dont_match string
  | Undelivered_packages "string list"

datatype exn = KeyError string

text \<open>
  The mutable fields of a \<open>Validator\<close> object. A courier's position is \<open>None\<close> when
  \<open>_get_location_coordinates\<close> returned \<open>None\<close> for its start location.
\<close>

record state =
  courier_positions :: "string \<rightharpoonup> pos option"
  courier_packages :: "string \<rightharpoonup> string list"
  package_status :: "string \<rightharpoonup> pkg_state"
  package_point_contents :: "string \<rightharpoonup> string list"
  delivered_packages :: "string set"
  errors :: "message list"
  completion_time :: int
  undelivered_penalty :: int
  invalid_action_penalty :: int

subsection \<open>The tables built by \<open>initialize_tracking\<close>\<close>

text \<open>
  \<open>self.locations\<close>, \<open>self.couriers\<close> and \<open>self.packages\<close> are filled once, in the
  order of the input lists, and never written again: a later entry with the same id
  replaces an earlier one, and the key keeps its first place.
\<close>

definition locations :: "problem \<Rightarrow> string \<rightharpoonup> location" where
  "locations prob = map_of (rev (map (\<lambda>l. (l_id l, l)) (map_locations prob)))"

definition couriers :: "problem \<Rightarrow> string \<rightharpoonup> courier" where
  "couriers prob = map_of (rev (map (\<lambda>c. (c_id c, c)) (in_couriers prob)))"

definition packages :: "problem \<Rightarrow> string \<rightharpoonup> package" where
  "packages prob = map_of (rev (map (\<lambda>p. (p_id p, p)) (in_packages prob)))"

text \<open>The keys of \<open>self.packages\<close>, each once.\<close>

definition package_keys :: "problem \<Rightarrow> string list" where
  "package_keys prob = remdups (map p_id (in_packages prob))"

text \<open>\<open>_get_location_coordinates\<close> scans the input list and returns the first match.\<close>

fun get_location_coordinates :: "location list \<Rightarrow> string \<Rightarrow> pos option" where
  "get_location_coordinates [] location_id = None"
| "get_location_coordinates (loc # locs) location_id =
     (if l_id loc = location_id then Some (l_coordinates loc)
      else get_location_coordinates locs location_id)"

definition empty_state :: state where
  "empty_state = \<lparr>courier_positions = Map.empty, courier_packages = Map.empty,
     package_status = Map.empty, package_point_contents = Map.empty,
     delivered_packages = {}, errors = [], completion_time = 0,
     undelivered_penalty = 0, invalid_action_penalty = 0\<rparr>"

definition init_location :: "state \<Rightarrow> location \<Rightarrow> state" where
  "init_location st loc =
     (if l_type loc = ''package_point''
      then st\<lparr>package_point_contents := (package_point_contents st)(l_id loc \<mapsto> [])\<rparr>
      else st)"

definition init_courier :: "problem \<Rightarrow> state \<Rightarrow> courier \<Rightarrow> state" where
  "init_courier prob st c =
     st\<lparr>courier_positions := (courier_positions st)
            (c_id c \<mapsto> get_location_coordinates (map_locations prob) (c_start_location c)),
        courier_packages := (courier_packages st)(c_id c \<mapsto> [])\<rparr>"

definition init_package :: "state \<Rightarrow> package \<Rightarrow> state" where
  "init_package st p =
     st\<lparr>package_status := (package_status st)
            (p_id p \<mapsto> \<lparr>status = At_warehouse, holder = p_origin p,
                         ps_arrival_time = p_arrival_time p, delivery_time = None\<rparr>)\<rparr>"

definition initialize_tracking :: "problem \<Rightarrow> state" where
  "initialize_tracking prob =
     foldl init_package
       (foldl (init_courier prob)
          (foldl init_location empty_state (map_locations prob))
          (in_couriers prob))
       (in_packages prob)"

subsection \<open>Moves\<close>

definition is_valid_move :: "pos \<Rightarrow> pos \<Rightarrow> bool" where
  "is_valid_move from_pos to_pos =
     (let dx = \<bar>fst to_pos - fst from_pos\<bar>; dy = \<bar>snd to_pos - snd from_pos\<bar>
      in dx \<le> 1 \<and> dy \<le> 1 \<and> (dx > 0 \<or> dy > 0))"

text \<open>The \<open>packages\<close> field of an action, as \<open>action_data.get("packages", [])\<close> reads it.\<close>

definition listed_packages :: "action \<Rightarrow> string list" where
  "listed_packages a = (case a_packages a of None \<Rightarrow> [] | Some ps \<Rightarrow> ps)"

text \<open>Appending a message and adding the invalid-action penalty, as every rejection does.\<close>

definition reject :: "state \<Rightarrow> message \<Rightarrow> state" where
  "reject st m = st\<lparr>errors := errors st @ [m],
                    invalid_action_penalty := invalid_action_penalty st + 10\<rparr>"

text \<open>
  A handler returns the state it leaves behind and the exception it raised, if any:
  what it wrote before raising stays written.
\<close>

type_synonym outcome = "state \<times> exn option"

definition process_move :: "problem \<Rightarrow> state \<Rightarrow> action \<Rightarrow> outcome" where
  "process_move prob st a =
     (case a_courier a of None \<Rightarrow> (st, Some (KeyError ''courier'')) | Some courier_id \<Rightarrow>
     (case a_from a of None \<Rightarrow> (st, Some (KeyError ''from'')) | Some from_pos \<Rightarrow>
     (case a_to a of None \<Rightarrow> (st, Some (KeyError ''to'')) | Some to_pos \<Rightarrow>
     (let pkgs = listed_packages a in
     (case courier_positions st courier_id of
        None \<Rightarrow> (st, Some (KeyError courier_id))
      | Some courier_pos \<Rightarrow>
        if courier_pos \<noteq> Some from_pos
        then (reject st (Courier_not_at_position courier_id from_pos), None)
        else if \<not> is_valid_move from_pos to_pos
        then (reject st (Invalid_move from_pos to_pos), None)
        else (case courier_packages st courier_id of
          None \<Rightarrow> (st, Some (KeyError courier_id))
        | Some current_packages \<Rightarrow>
          if set pkgs \<noteq> set current_packages
          then (reject st (Packages_dont_match courier_id), None)
          else (st\<lparr>courier_positions := (courier_positions st)(courier_id \<mapsto> Some to_pos)\<rparr>,
                None)))))))"

subsection \<open>Pick-up\<close>

text \<open>The loop over the listed packages; a rejected package is skipped, the loop goes on.\<close>

fun pickup_loop :: "problem \<Rightarrow> string \<Rightarrow> string \<Rightarrow> int \<Rightarrow> state \<Rightarrow> string list \<Rightarrow> outcome" where
  "pickup_loop prob courier_id location_id time st [] = (st, None)"
| "pickup_loop prob courier_id location_id time st (package_id # rest) =
     (case packages prob package_id of
        None \<Rightarrow> pickup_loop prob courier_id location_id time
                  (reject st (Invalid_package_ID package_id)) rest
      | Some package \<Rightarrow>
        (case package_status st package_id of
           None \<Rightarrow> (st, Some (KeyError package_id))
         | Some pst \<Rightarrow>
           if p_origin package \<noteq> location_id
           then pickup_loop prob courier_id location_id time
                  (reject st (Package_origin_is_not package_id location_id)) rest
           else if status pst \<noteq> At_warehouse
           then pickup_loop prob courier_id location_id time
                  (reject st (Package_not_at_warehouse package_id)) rest
           else if time < p_arrival_time package
           then pickup_loop prob courier_id location_id time
                  (reject st (Package_not_arrived package_id time)) rest
           else (case courier_packages st courier_id of
              None \<Rightarrow>
                (st\<lparr>package_status := (package_status st)
                      (package_id \<mapsto> pst\<lparr>status := With_courier, holder := courier_id\<rparr>)\<rparr>,
                 Some (KeyError courier_id))
            | Some carried \<Rightarrow>
                pickup_loop prob courier_id location_id time
                  (st\<lparr>package_status := (package_status st)
                        (package_id \<mapsto> pst\<lparr>status := With_courier, holder := courier_id\<rparr>),
                      courier_packages := (courier_packages st)
                        (courier_id \<mapsto> carried @ [package_id])\<rparr>) rest)))"

definition process_pickup :: "problem \<Rightarrow> state \<Rightarrow> action \<Rightarrow> int \<Rightarrow> outcome" where
  "process_pickup prob st a time =
     (case a_courier a of None \<Rightarrow> (st, Some (KeyError ''courier'')) | Some courier_id \<Rightarrow>
     (case a_location a of None \<Rightarrow> (st, Some (KeyError ''location'')) | Some location_id \<Rightarrow>
     (let pkgs = listed_packages a in
     (case courier_positions st courier_id of
        None \<Rightarrow> (st, Some (KeyError courier_id))
      | Some courier_pos \<Rightarrow>
        let location_pos = get_location_coordinates (map_locations prob) location_id in
        if location_pos = None
        then (reject st (Invalid_location_ID location_id), None)
        else if courier_pos \<noteq> location_pos
        then (reject st (Courier_not_at_location courier_id location_id), None)
        else (case locations prob location_id of
          None \<Rightarrow> (st, Some (KeyError location_id))
        | Some location \<Rightarrow>
          if l_type location \<noteq> ''warehouse''
          then (reject st (Cannot_pick_up_from_non_warehouse location_id), None)
          else (case couriers prob courier_id of
            None \<Rightarrow> (st, Some (KeyError courier_id))
          | Some courier \<Rightarrow>
            (case courier_packages st courier_id of
               None \<Rightarrow> (st, Some (KeyError courier_id))
             | Some current_packages \<Rightarrow>
               if int (length current_packages) + int (length pkgs) > c_capacity courier
               then (reject st (Exceeding_courier_capacity courier_id), None)
               else pickup_loop prob courier_id location_id time st pkgs)))))))"

subsection \<open>Drop-off\<close>

text \<open>
  \<open>current_packages\<close> is the courier's own list, not a copy: the membership test of a
  later iteration sees the removals of the earlier ones.
\<close>

fun dropoff_loop :: "string \<Rightarrow> string \<Rightarrow> state \<Rightarrow> string list \<Rightarrow> outcome" where
  "dropoff_loop courier_id location_id st [] = (st, None)"
| "dropoff_loop courier_id location_id st (package_id # rest) =
     (case courier_packages st courier_id of
        None \<Rightarrow> (st, Some (KeyError courier_id))
      | Some current_packages \<Rightarrow>
        if package_id \<notin> set current_packages
        then dropoff_loop courier_id location_id
               (reject st (Courier_does_not_have courier_id package_id)) rest
        else (case package_status st package_id of
           None \<Rightarrow> (st, Some (KeyError package_id))
         | Some pst \<Rightarrow>
           (case package_point_contents st location_id of
              None \<Rightarrow>
                (st\<lparr>package_status := (package_status st)
                      (package_id \<mapsto> pst\<lparr>status := At_package_point, holder := location_id\<rparr>),
                    courier_packages := (courier_packages st)
                      (courier_id \<mapsto> remove1 package_id current_packages)\<rparr>,
                 Some (KeyError location_id))
            | Some contents \<Rightarrow>
                dropoff_loop courier_id location_id
                  (st\<lparr>package_status := (package_status st)
                        (package_id \<mapsto> pst\<lparr>status := At_package_point, holder := location_id\<rparr>),
                      courier_packages := (courier_packages st)
                        (courier_id \<mapsto> remove1 package_id current_packages),
                      package_point_contents := (package_point_contents st)
                        (location_id \<mapsto> contents @ [package_id])\<rparr>) rest)))"

definition process_dropoff :: "problem \<Rightarrow> state \<Rightarrow> action \<Rightarrow> int \<Rightarrow> outcome" where
  "process_dropoff prob st a time =
     (case a_courier a of None \<Rightarrow> (st, Some (KeyError ''courier'')) | Some courier_id \<Rightarrow>
     (case a_location a of None \<Rightarrow> (st, Some (KeyError ''location'')) | Some location_id \<Rightarrow>
     (let pkgs = listed_packages a in
     (case courier_positions st courier_id of
        None \<Rightarrow> (st, Some (KeyError courier_id))
      | Some courier_pos \<Rightarrow>
        let location_pos = get_location_coordinates (map_locations prob) location_id in
        if location_pos = None
        then (reject st (Invalid_location_ID location_id), None)
        else if courier_pos \<noteq> location_pos
        then (reject st (Courier_not_at_location courier_id location_id), None)
        else (case locations prob location_id of
          None \<Rightarrow> (st, Some (KeyError location_id))
        | Some location \<Rightarrow>
          if l_type location \<noteq> ''package_point''
          then (reject st (Cannot_drop_off_at_non_package_point location_id), None)
          else (case package_point_contents st location_id of
            None \<Rightarrow> (st, Some (KeyError location_id))
          | Some current_pp_packages \<Rightarrow>
            (case l_capacity location of
               None \<Rightarrow> (st, Some (KeyError ''capacity''))
             | Some capacity \<Rightarrow>
               if int (length current_pp_packages) + int (length pkgs) > capacity
               then (reject st (Exceeding_package_point_capacity location_id), None)
               else (case courier_packages st courier_id of
                  None \<Rightarrow> (st, Some (KeyError courier_id))
                | Some current_packages \<Rightarrow>
                    dropoff_loop courier_id location_id st pkgs))))))))"

subsection \<open>Deliver\<close>

fun deliver_loop :: "problem \<Rightarrow> string \<Rightarrow> string \<Rightarrow> int \<Rightarrow> state \<Rightarrow> string list \<Rightarrow> outcome" where
  "deliver_loop prob courier_id location_id time st [] = (st, None)"
| "deliver_loop prob courier_id location_id time st (package_id # rest) =
     (case courier_packages st courier_id of
        None \<Rightarrow> (st, Some (KeyError courier_id))
      | Some current_packages \<Rightarrow>
        if package_id \<notin> set current_packages
        then deliver_loop prob courier_id location_id time
               (reject st (Courier_does_not_have courier_id package_id)) rest
        else (case packages prob package_id of
           None \<Rightarrow> (st, Some (KeyError package_id))
         | Some package \<Rightarrow>
           if p_destination package \<noteq> location_id
           then deliver_loop prob courier_id location_id time
                  (reject st (Package_destination_is_not package_id location_id)) rest
           else (case package_status st package_id of
              None \<Rightarrow> (st, Some (KeyError package_id))
            | Some pst \<Rightarrow>
                deliver_loop prob courier_id location_id time
                  (st\<lparr>package_status := (package_status st)
                        (package_id \<mapsto> pst\<lparr>status := Delivered, holder := location_id,
                                            delivery_time := Some time\<rparr>),
                      courier_packages := (courier_packages st)
                        (courier_id \<mapsto> remove1 package_id current_packages),
                      delivered_packages := insert package_id (delivered_packages st)\<rparr>)
                  rest)))"

definition process_deliver :: "problem \<Rightarrow> state \<Rightarrow> action \<Rightarrow> int \<Rightarrow> outcome" where
  "process_deliver prob st a time =
     (case a_courier a of None \<Rightarrow> (st, Some (KeyError ''courier'')) | Some courier_id \<Rightarrow>
     (case a_location a of None \<Rightarrow> (st, Some (KeyError ''location'')) | Some location_id \<Rightarrow>
     (let pkgs = listed_packages a in
     (case courier_positions st courier_id of
        None \<Rightarrow> (st, Some (KeyError courier_id))
      | Some courier_pos \<Rightarrow>
        let location_pos = get_location_coordinates (map_locations prob) location_id in
        if location_pos = None
        then (reject st (Invalid_location_ID location_id), None)
        else if courier_pos \<noteq> location_pos
        then (reject st (Courier_not_at_location courier_id location_id), None)
        else (case locations prob location_id of
          None \<Rightarrow> (st, Some (KeyError location_id))
        | Some location \<Rightarrow>
          if l_type location \<noteq> ''destination''
          then (reject st (Cannot_deliver_to_non_destination location_id), None)
          else (case courier_packages st courier_id of
             None \<Rightarrow> (st, Some (KeyError courier_id))
           | Some current_packages \<Rightarrow>
               deliver_loop prob courier_id location_id time st pkgs))))))"

subsection \<open>The loop of \<open>validate_solution\<close>\<close>

text \<open>
  The two \<open>except\<close> clauses of the loop body: the exception becomes a message and a
  penalty. The handlers of this model raise \<open>KeyError\<close> only.
\<close>

fun catch :: "outcome \<Rightarrow> state" where
  "catch (st, None) = st"
| "catch (st, Some (KeyError k)) = reject st (Missing_required_field k)"

definition process_wait :: "problem \<Rightarrow> state \<Rightarrow> action \<Rightarrow> outcome" where
  "process_wait prob st a =
     (case a_location a of
        None \<Rightarrow> (st, None)
      | Some location_id \<Rightarrow>
        if location_id \<noteq> [] \<and> locations prob location_id = None
        then (reject st (Invalid_location_ID_for_wait location_id), None)
        else (st, None))"

definition update_completion_time :: "state \<Rightarrow> int \<Rightarrow> state" where
  "update_completion_time st time =
     (if time > completion_time st then st\<lparr>completion_time := time\<rparr> else st)"

text \<open>
  One iteration. The three keys are read first, and the completion time is updated only
  when all three are there.
\<close>

definition process_action :: "problem \<Rightarrow> state \<Rightarrow> action \<Rightarrow> state" where
  "process_action prob st a =
     (case a_time a of None \<Rightarrow> catch (st, Some (KeyError ''time'')) | Some time \<Rightarrow>
     (case a_courier a of None \<Rightarrow> catch (st, Some (KeyError ''courier'')) | Some courier_id \<Rightarrow>
     (case a_action a of None \<Rightarrow> catch (st, Some (KeyError ''action'')) | Some action_type \<Rightarrow>
     (let st1 = update_completion_time st time in
      if couriers prob courier_id = None
      then reject st1 (Invalid_courier_ID courier_id)
      else if action_type = ''pick_up'' then catch (process_pickup prob st1 a time)
      else if action_type = ''drop_off'' then catch (process_dropoff prob st1 a time)
      else if action_type = ''deliver'' then catch (process_deliver prob st1 a time)
      else if action_type = ''move'' then catch (process_move prob st1 a)
      else if action_type = ''wait'' then catch (process_wait prob st1 a)
      else reject st1 (Invalid_action_type action_type)))))"

definition process_all :: "problem \<Rightarrow> state \<Rightarrow> action list \<Rightarrow> state" where
  "process_all prob st acts = foldl (process_action prob) st acts"

text \<open>
  \<open>sorted(self.output_data, key=lambda x: x["time"])\<close> stands before the loop, outside
  its \<open>try\<close>: a record without \<open>time\<close> raises there. The sort is stable.
\<close>

definition sorted_actions :: "action list \<Rightarrow> exn + action list" where
  "sorted_actions output_data =
     (if None \<in> set (map a_time output_data) then Inl (KeyError ''time'')
      else Inr (sort_key (\<lambda>x. the (a_time x)) output_data))"

subsection \<open>Undelivered packages and the report\<close>

text \<open>
  \<open>undelivered\<close> is a Python set of strings. Its size and its emptiness do not depend on
  the order of iteration; the text of the message does, and that order is fixed by the
  hash seed of the interpreter process. The model takes the order as a parameter: a
  function that rearranges the elements, given in key order.
\<close>

type_synonym set_order = "string list \<Rightarrow> string list"

definition undelivered :: "problem \<Rightarrow> state \<Rightarrow> string list" where
  "undelivered prob st = filter (\<lambda>k. k \<notin> delivered_packages st) (package_keys prob)"

definition check_undelivered :: "set_order \<Rightarrow> problem \<Rightarrow> state \<Rightarrow> state" where
  "check_undelivered iter prob st =
     (let st1 = st\<lparr>undelivered_penalty := int (length (undelivered prob st)) * 100\<rparr>
      in if undelivered prob st \<noteq> []
         then st1\<lparr>errors := errors st1 @ [Undelivered_packages (iter (undelivered prob st))]\<rparr>
         else st1)"

record report =
  score :: int
  r_completion_time :: int
  r_undelivered_penalty :: int
  r_invalid_action_penalty :: int
  r_errors :: "message list"
  r_warnings :: "message list"
  r_delivered_packages :: nat
  r_total_packages :: nat
  is_valid :: bool

text \<open>\<open>calculate_score\<close>; the first argument is the list of keys of \<open>self.packages\<close>.\<close>

definition calculate_score :: "string list \<Rightarrow> state \<Rightarrow> report" where
  "calculate_score keys st =
     \<lparr>score = completion_time st + undelivered_penalty st + invalid_action_penalty st,
      r_completion_time = completion_time st,
      r_undelivered_penalty = undelivered_penalty st,
      r_invalid_action_penalty = invalid_action_penalty st,
      r_errors = errors st,
      r_warnings = [],
      r_delivered_packages = card (delivered_packages st),
      r_total_packages = length keys,
      is_valid = (errors st = [])\<rparr>"

text \<open>
  A file is \<open>None\<close> when \<open>open\<close> or \<open>json.load\<close> raises. \<open>validate_solution\<close> then
  returns at once, and \<open>validate_and_score\<close> goes on to \<open>calculate_score\<close> on the
  fields as \<open>__init__\<close> left them, with one message added. The result is \<open>Inl\<close> for
  an exception that nothing catches.
\<close>

definition validate_and_score ::
  "set_order \<Rightarrow> problem option \<Rightarrow> action list option \<Rightarrow> exn + report" where
  "validate_and_score iter input_file output_file =
     (case input_file of
        None \<Rightarrow> Inr (calculate_score [] (empty_state\<lparr>errors := [Error_loading_files]\<rparr>))
      | Some prob \<Rightarrow>
        (case output_file of
           None \<Rightarrow> Inr (calculate_score [] (empty_state\<lparr>errors := [Error_loading_files]\<rparr>))
         | Some output_data \<Rightarrow>
           (case sorted_actions output_data of
              Inl e \<Rightarrow> Inl e
            | Inr acts \<Rightarrow>
                Inr (calculate_score (package_keys prob)
                       (check_undelivered iter prob
                          (process_all prob (initialize_tracking prob) acts))))))"

text \<open>
  \<open>main\<close>: what the process prints and its exit code, or the exception that ends it
  with a traceback.
\<close>

definition main :: "set_order \<Rightarrow> problem option \<Rightarrow> action list option \<Rightarrow> exn + report \<times> nat" where
  "main iter input_file output_file =
     (case validate_and_score iter input_file output_file of
        Inl e \<Rightarrow> Inl e
      | Inr result \<Rightarrow> Inr (result, if \<not> is_valid result then 1 else 0))"

subsection \<open>A small instance\<close>

text \<open>
  One warehouse at (0,0), one package point of capacity 1 at (1,0), one destination at
  (2,0), one courier of capacity 1 starting at the warehouse, one package.
\<close>

definition ex_problem :: problem where
  "ex_problem =
     \<lparr>dimensions = (3, 1),
      map_locations =
        [\<lparr>l_id = ''W1'', l_type = ''warehouse'', l_coordinates = (0, 0), l_capacity = None\<rparr>,
         \<lparr>l_id = ''P1'', l_type = ''package_point'', l_coordinates = (1, 0), l_capacity = Some 1\<rparr>,
         \<lparr>l_id = ''D1'', l_type = ''destination'', l_coordinates = (2, 0), l_capacity = None\<rparr>],
      in_couriers = [\<lparr>c_id = ''C1'', c_start_location = ''W1'', c_capacity = 1\<rparr>],
      in_packages = [\<lparr>p_id = ''PKG1'', p_origin = ''W1'', p_destination = ''D1'',
                       p_arrival_time = 0\<rparr>]\<rparr>"

definition ex_two_packages :: problem where
  "ex_two_packages =
     ex_problem\<lparr>in_packages :=
       [\<lparr>p_id = ''PKG1'', p_origin = ''W1'', p_destination = ''D1'', p_arrival_time = 0\<rparr>,
        \<lparr>p_id = ''PKG2'', p_origin = ''W1'', p_destination = ''D1'', p_arrival_time = 0\<rparr>]\<rparr>"

definition ex_at :: "int \<Rightarrow> string \<Rightarrow> string \<Rightarrow> string list \<Rightarrow> action" where
  "ex_at t kind location_id pkgs =
     \<lparr>a_time = Some t, a_courier = Some ''C1'', a_action = Some kind,
      a_location = Some location_id, a_from = None, a_to = None, a_packages = Some pkgs\<rparr>"

definition ex_move :: "int \<Rightarrow> pos \<Rightarrow> pos \<Rightarrow> string list \<Rightarrow> action" where
  "ex_move t from_pos to_pos pkgs =
     \<lparr>a_time = Some t, a_courier = Some ''C1'', a_action = Some ''move'',
      a_location = None, a_from = Some from_pos, a_to = Some to_pos, a_packages = Some pkgs\<rparr>"

text \<open>Pick up, two moves, deliver.\<close>

definition ex_log :: "action list" where
  "ex_log =
     [ex_at 0 ''pick_up'' ''W1'' [''PKG1''],
      ex_move 1 (0, 0) (1, 0) [''PKG1''],
      ex_move 2 (1, 0) (2, 0) [''PKG1''],
      ex_at 3 ''deliver'' ''D1'' [''PKG1'']]"

text \<open>Pick up, one move, drop off at the package point.\<close>

definition ex_log_drop :: "action list" where
  "ex_log_drop =
     [ex_at 0 ''pick_up'' ''W1'' [''PKG1''],
      ex_move 1 (0, 0) (1, 0) [''PKG1''],
      ex_at 2 ''drop_off'' ''P1'' [''PKG1'']]"

text \<open>The state after the pick-up and the move: the courier stands at the package point.\<close>

definition ex_at_P1 :: state where
  "ex_at_P1 = process_all ex_problem (initialize_tracking ex_problem) (take 2 ex_log_drop)"

text \<open>A wait record without the key \<open>time\<close>.\<close>

definition ex_no_time :: action where
  "ex_no_time =
     \<lparr>a_time = None, a_courier = Some ''C1'', a_action = Some ''wait'',
      a_location = None, a_from = None, a_to = None, a_packages = None\<rparr>"

subsection \<open>The words of the specification\<close>

text \<open>The Chebyshev distance of two grid points.\<close>

definition chebyshev :: "pos \<Rightarrow> pos \<Rightarrow> int" where
  "chebyshev p q = max \<bar>fst q - fst p\<bar> \<bar>snd q - snd p\<bar>"

text \<open>
  Two messages are the same up to the order of a set: equal, or two summaries of
  undelivered packages that list the same ids.
\<close>

fun same_message :: "message \<Rightarrow> message \<Rightarrow> bool" where
  "same_message (Undelivered_packages xs) (Undelivered_packages ys) = (mset xs = mset ys)"
| "same_message m1 m2 = (m1 = m2)"

definition same_report :: "report \<Rightarrow> report \<Rightarrow> bool" where
  "same_report r1 r2 =
     (r1\<lparr>r_errors := []\<rparr> = r2\<lparr>r_errors := []\<rparr> \<and>
      list_all2 same_message (r_errors r1) (r_errors r2))"

fun same_result :: "exn + report \<Rightarrow> exn + report \<Rightarrow> bool" where
  "same_result (Inl e1) (Inl e2) = (e1 = e2)"
| "same_result (Inr r1) (Inr r2) = same_report r1 r2"
| "same_result _ _ = False"

text \<open>
  A well-formed problem: every courier has capacity at least 1, and every package point
  declares a capacity of at least 1.
\<close>

definition well_formed :: "problem \<Rightarrow> bool" where
  "well_formed prob =
     (list_all (\<lambda>c. 1 \<le> c_capacity c) (in_couriers prob) \<and>
      list_all (\<lambda>l. l_type l = ''package_point'' \<longrightarrow>
                  (case l_capacity l of None \<Rightarrow> False | Some cap \<Rightarrow> 1 \<le> cap))
        (map_locations prob))"

text \<open>
  Every courier carries at most its capacity, and every package point holds at most
  its capacity.
\<close>

definition within_capacity :: "problem \<Rightarrow> state \<Rightarrow> bool" where
  "within_capacity prob st =
     ((\<forall>c cr carried. couriers prob c = Some cr \<longrightarrow> courier_packages st c = Some carried
          \<longrightarrow> int (length carried) \<le> c_capacity cr) \<and>
      (\<forall>lid loc cap contents. locations prob lid = Some loc \<longrightarrow> l_type loc = ''package_point''
          \<longrightarrow> l_capacity loc = Some cap \<longrightarrow> package_point_contents st lid = Some contents
          \<longrightarrow> int (length contents) \<le> cap))"

text \<open>The length of a list that a table may not have.\<close>

fun count_of :: "string list option \<Rightarrow> int" where
  "count_of None = 0"
| "count_of (Some xs) = int (length xs)"

text \<open>The same bound on the counts, whether the table has the key or not.\<close>

definition counts_within_capacity :: "problem \<Rightarrow> state \<Rightarrow> bool" where
  "counts_within_capacity prob st =
     ((\<forall>c cr. couriers prob c = Some cr
          \<longrightarrow> count_of (courier_packages st c) \<le> c_capacity cr) \<and>
      (\<forall>lid loc cap. locations prob lid = Some loc \<longrightarrow> l_type loc = ''package_point''
          \<longrightarrow> l_capacity loc = Some cap
          \<longrightarrow> count_of (package_point_contents st lid) \<le> cap))"

text \<open>The stored status of a package, if the table has the package.\<close>

definition status_of :: "state \<Rightarrow> string \<Rightarrow> status option" where
  "status_of st p = map_option status (package_status st p)"

text \<open>
  The edges that the validator can take in one action: from the warehouse to a courier,
  from a courier to a package point or to the destination. Anything else stays as it is.
\<close>

fun legal_step :: "status option \<Rightarrow> status option \<Rightarrow> bool" where
  "legal_step (Some At_warehouse) (Some With_courier) = True"
| "legal_step (Some With_courier) (Some At_package_point) = True"
| "legal_step (Some With_courier) (Some Delivered) = True"
| "legal_step x y = (x = y)"

text \<open>No change, or the one edge from \<open>a\<close> to \<open>b\<close>.\<close>

definition only_step :: "status \<Rightarrow> status \<Rightarrow> status option \<Rightarrow> status option \<Rightarrow> bool" where
  "only_step a b x y = (x = y \<or> (x = Some a \<and> y = Some b))"

text \<open>
  The tables agree: a carried list has no duplicates, a package in the list of a courier
  has status \<open>with_courier\<close> and that courier as holder, and a package in the delivered
  set has status \<open>delivered\<close>.
\<close>

definition consistent :: "state \<Rightarrow> bool" where
  "consistent st =
     ((\<forall>c carried. courier_packages st c = Some carried \<longrightarrow>
          distinct carried \<and>
          (\<forall>p \<in> set carried. \<exists>pst. package_status st p = Some pst \<and>
               status pst = With_courier \<and> holder pst = c)) \<and>
      (\<forall>p \<in> delivered_packages st. \<exists>pst. package_status st p = Some pst \<and>
           status pst = Delivered))"

section \<open>Properties\<close>

subsection \<open>Moves\<close>

lemma is_valid_move_chebyshev: "is_valid_move f t \<longleftrightarrow> chebyshev f t = 1"
  by (auto simp: is_valid_move_def chebyshev_def Let_def max_def)

lemma process_move_known:
  assumes "a_courier a = Some c" and "a_from a = Some f" and "a_to a = Some t"
    and "courier_positions st c = Some cp" and "courier_packages st c = Some carried"
  shows "process_move prob st a =
          (if cp \<noteq> Some f then (reject st (Courier_not_at_position c f), None)
           else if \<not> is_valid_move f t then (reject st (Invalid_move f t), None)
           else if set (listed_packages a) \<noteq> set carried
           then (reject st (Packages_dont_match c), None)
           else (st\<lparr>courier_positions := (courier_positions st)(c \<mapsto> Some t)\<rparr>, None))"
  using assms by (simp add: process_move_def Let_def)

lemma errors_reject: "errors (reject st m) = errors st @ [m]"
  by (simp add: reject_def)

text \<open>
  C7. For a move of a courier that the tracking tables know, with \<open>from\<close> and \<open>to\<close>
  given: no error is recorded if and only if the stored position equals \<open>from\<close>,
  \<open>to\<close> is at Chebyshev distance exactly 1 from \<open>from\<close>, and the listed packages are
  set-equal to the carried ones. Then the only change of the state is the courier's
  position, which becomes \<open>to\<close>; otherwise the only change is one more message and 10
  more units of penalty, and the position stays.
\<close>

theorem process_move_succeeds_iff:
  assumes "a_courier a = Some c" and "a_from a = Some f" and "a_to a = Some t"
    and "courier_positions st c = Some cp" and "courier_packages st c = Some carried"
  shows "(errors (fst (process_move prob st a)) = errors st
            \<longleftrightarrow> cp = Some f \<and> chebyshev f t = 1 \<and> set (listed_packages a) = set carried)
       \<and> (cp = Some f \<and> chebyshev f t = 1 \<and> set (listed_packages a) = set carried
            \<longrightarrow> process_move prob st a =
                  (st\<lparr>courier_positions := (courier_positions st)(c \<mapsto> Some t)\<rparr>, None))
       \<and> (\<not> (cp = Some f \<and> chebyshev f t = 1 \<and> set (listed_packages a) = set carried)
            \<longrightarrow> (\<exists>m. process_move prob st a =
                  (st\<lparr>errors := errors st @ [m],
                      invalid_action_penalty := invalid_action_penalty st + 10\<rparr>, None)))"
proof -
  note pm = process_move_known [OF assms, of prob]
  show ?thesis
    unfolding pm is_valid_move_chebyshev [symmetric]
    by (auto simp: reject_def)
qed

theorem process_move_succeeds_iff_witness:
  "process_move ex_problem (initialize_tracking ex_problem) (ex_move 1 (0, 0) (1, 0) []) =
     ((initialize_tracking ex_problem)
        \<lparr>courier_positions :=
           (courier_positions (initialize_tracking ex_problem))(''C1'' \<mapsto> Some (1, 0))\<rparr>, None)
   \<and> (\<exists>m. process_move ex_problem (initialize_tracking ex_problem) (ex_move 1 (0, 0) (2, 0) []) =
     ((initialize_tracking ex_problem)
        \<lparr>errors := errors (initialize_tracking ex_problem) @ [m],
         invalid_action_penalty :=
           invalid_action_penalty (initialize_tracking ex_problem) + 10\<rparr>, None))"
proof -
  have p: "courier_positions (initialize_tracking ex_problem) ''C1'' = Some (Some (0, 0))"
    by code_simp
  have k: "courier_packages (initialize_tracking ex_problem) ''C1'' = Some []"
    by code_simp
  have a1: "a_courier (ex_move 1 (0, 0) (1, 0) []) = Some ''C1''"
    "a_from (ex_move 1 (0, 0) (1, 0) []) = Some (0, 0)"
    "a_to (ex_move 1 (0, 0) (1, 0) []) = Some (1, 0)"
    by (simp_all add: ex_move_def)
  have a2: "a_courier (ex_move 1 (0, 0) (2, 0) []) = Some ''C1''"
    "a_from (ex_move 1 (0, 0) (2, 0) []) = Some (0, 0)"
    "a_to (ex_move 1 (0, 0) (2, 0) []) = Some (2, 0)"
    by (simp_all add: ex_move_def)
  have l: "listed_packages (ex_move 1 (0, 0) (1, 0) []) = []"
    "listed_packages (ex_move 1 (0, 0) (2, 0) []) = []"
    by (simp_all add: ex_move_def listed_packages_def)
  have c1: "chebyshev (0, 0) (1, 0) = 1" and c2: "chebyshev (0, 0) (2, 0) \<noteq> 1"
    by (simp_all add: chebyshev_def)
  show ?thesis
    using process_move_succeeds_iff [OF a1 p k, of ex_problem]
      process_move_succeeds_iff [OF a2 p k, of ex_problem] l c1 c2
    by simp
qed

text \<open>
  C10. The declared dimensions of the map play no part in a move: whatever they are, a
  move whose \<open>from\<close> is the stored position, whose \<open>to\<close> is at Chebyshev distance 1
  and whose packages match the carried set puts the courier at \<open>to\<close>, also when
  \<open>to\<close> lies outside the grid or has negative coordinates.
\<close>

theorem process_move_ignores_dimensions:
  assumes "a_courier a = Some c" and "a_from a = Some f" and "a_to a = Some t"
    and "courier_positions st c = Some (Some f)" and "courier_packages st c = Some carried"
    and "chebyshev f t = 1" and "set (listed_packages a) = set carried"
  shows "process_move (prob\<lparr>dimensions := d\<rparr>) st a =
           (st\<lparr>courier_positions := (courier_positions st)(c \<mapsto> Some t)\<rparr>, None)"
  using assms(6,7)
  by (simp add: process_move_known [OF assms(1-5)] is_valid_move_chebyshev)

theorem process_move_ignores_dimensions_witness:
  "process_move (ex_problem\<lparr>dimensions := (1, 1)\<rparr>) (initialize_tracking ex_problem)
     (ex_move 1 (0, 0) (- 1, - 1) []) =
     ((initialize_tracking ex_problem)
        \<lparr>courier_positions :=
           (courier_positions (initialize_tracking ex_problem))(''C1'' \<mapsto> Some (- 1, - 1))\<rparr>,
      None)"
proof -
  have p: "courier_positions (initialize_tracking ex_problem) ''C1'' = Some (Some (0, 0))"
    by code_simp
  have k: "courier_packages (initialize_tracking ex_problem) ''C1'' = Some []"
    by code_simp
  have a: "a_courier (ex_move 1 (0, 0) (- 1, - 1) []) = Some ''C1''"
    "a_from (ex_move 1 (0, 0) (- 1, - 1) []) = Some (0, 0)"
    "a_to (ex_move 1 (0, 0) (- 1, - 1) []) = Some (- 1, - 1)"
    by (simp_all add: ex_move_def)
  have c: "chebyshev (0, 0) (- 1, - 1) = 1"
    by (simp add: chebyshev_def)
  have l: "set (listed_packages (ex_move 1 (0, 0) (- 1, - 1) [])) = set []"
    by (simp add: ex_move_def listed_packages_def)
  show ?thesis
    by (rule process_move_ignores_dimensions [OF a p k c l])
qed

subsection \<open>Drop-off beyond the capacity of a package point\<close>

lemma process_dropoff_known:
  assumes "a_courier a = Some c" and "a_location a = Some lid"
    and "courier_positions st c = Some cp"
    and "locations prob lid = Some loc" and "l_type loc = ''package_point''"
    and "l_capacity loc = Some cap"
    and "package_point_contents st lid = Some contents"
  shows "process_dropoff prob st a time =
          (if get_location_coordinates (map_locations prob) lid = None
           then (reject st (Invalid_location_ID lid), None)
           else if cp \<noteq> get_location_coordinates (map_locations prob) lid
           then (reject st (Courier_not_at_location c lid), None)
           else if int (length contents) + int (length (listed_packages a)) > cap
           then (reject st (Exceeding_package_point_capacity lid), None)
           else (case courier_packages st c of
                   None \<Rightarrow> (st, Some (KeyError c))
                 | Some current_packages \<Rightarrow> dropoff_loop c lid st (listed_packages a)))"
  using assms by (simp add: process_dropoff_def Let_def)

text \<open>
  C9. A drop-off at a package point whose resident count plus the number of listed
  packages exceeds the declared capacity is rejected as a whole: the state changes by
  one message and 10 units of penalty and by nothing else, so the carried lists, the
  contents of the package points and every status are as before. When the courier
  stands at the package point, the message is the one of the capacity check.
\<close>

theorem process_dropoff_over_capacity:
  assumes "a_courier a = Some c" and "a_location a = Some lid"
    and "courier_positions st c = Some cp"
    and "locations prob lid = Some loc" and "l_type loc = ''package_point''"
    and "l_capacity loc = Some cap"
    and "package_point_contents st lid = Some contents"
    and "int (length contents) + int (length (listed_packages a)) > cap"
  shows "\<exists>m. process_dropoff prob st a time =
              (st\<lparr>errors := errors st @ [m],
                  invalid_action_penalty := invalid_action_penalty st + 10\<rparr>, None)
           \<and> (cp \<noteq> None \<and> cp = get_location_coordinates (map_locations prob) lid
                \<longrightarrow> m = Exceeding_package_point_capacity lid)"
  using assms(8)
  by (auto simp: process_dropoff_known [OF assms(1-7)] reject_def)

theorem process_dropoff_over_capacity_witness:
  "process_dropoff ex_problem ex_at_P1 (ex_at 2 ''drop_off'' ''P1'' [''PKG1'', ''PKG1'']) 2 =
     (ex_at_P1\<lparr>errors := errors ex_at_P1 @ [Exceeding_package_point_capacity ''P1''],
               invalid_action_penalty := invalid_action_penalty ex_at_P1 + 10\<rparr>, None)"
proof -
  let ?a = "ex_at 2 ''drop_off'' ''P1'' [''PKG1'', ''PKG1'']"
  let ?loc = "\<lparr>l_id = ''P1'', l_type = ''package_point'', l_coordinates = (1, 0),
               l_capacity = Some 1\<rparr>"
  have a: "a_courier ?a = Some ''C1''" "a_location ?a = Some ''P1''"
    by (simp_all add: ex_at_def)
  have p: "courier_positions ex_at_P1 ''C1'' = Some (Some (1, 0))"
    by code_simp
  have l: "locations ex_problem ''P1'' = Some ?loc"
    by code_simp
  have t: "l_type ?loc = ''package_point''" and c: "l_capacity ?loc = Some 1"
    by simp_all
  have k: "package_point_contents ex_at_P1 ''P1'' = Some []"
    by code_simp
  have n: "int (length ([]::string list)) + int (length (listed_packages ?a)) > 1"
    by (simp add: ex_at_def listed_packages_def)
  have g: "get_location_coordinates (map_locations ex_problem) ''P1'' = Some (1, 0)"
    by code_simp
  show ?thesis
    using process_dropoff_over_capacity [OF a p l t c k n, of 2] g by auto
qed

subsection \<open>Files that cannot be loaded\<close>

text \<open>
  C2, as the code has it. When a file is missing or is not JSON, no action is processed
  and the process exits with code 1, but a report is printed all the same: score 0,
  the three components 0, no package counted, the single load message in the error
  list, and \<open>is_valid\<close> false.
\<close>

theorem load_failure_report:
  assumes "input_file = None \<or> output_file = None"
  shows "main iter input_file output_file =
           Inr (\<lparr>score = 0, r_completion_time = 0, r_undelivered_penalty = 0,
                 r_invalid_action_penalty = 0, r_errors = [Error_loading_files],
                 r_warnings = [], r_delivered_packages = 0, r_total_packages = 0,
                 is_valid = False\<rparr>, 1)"
  using assms
  by (auto simp: main_def validate_and_score_def calculate_score_def empty_state_def
           split: option.splits)

theorem load_failure_report_witness:
  "main id (Some ex_problem) None =
     Inr (\<lparr>score = 0, r_completion_time = 0, r_undelivered_penalty = 0,
           r_invalid_action_penalty = 0, r_errors = [Error_loading_files],
           r_warnings = [], r_delivered_packages = 0, r_total_packages = 0,
           is_valid = False\<rparr>, 1)"
  using load_failure_report [of "Some ex_problem" None id] by simp

text \<open>The problem file is missing: a report with a score and components is printed.\<close>

theorem load_failure_prints_score:
  "main id None (Some ex_log) =
     Inr (\<lparr>score = 0, r_completion_time = 0, r_undelivered_penalty = 0,
           r_invalid_action_penalty = 0, r_errors = [Error_loading_files],
           r_warnings = [], r_delivered_packages = 0, r_total_packages = 0,
           is_valid = False\<rparr>, 1)"
  by code_simp

subsection \<open>Records with a missing key\<close>

text \<open>Inside the loop a missing key costs one message and 10 units, and the loop goes on.\<close>

lemma process_action_no_courier:
  "a_time a = Some t \<Longrightarrow> a_courier a = None \<Longrightarrow>
   process_action prob st a = reject st (Missing_required_field ''courier'')"
  by (simp add: process_action_def)

lemma process_action_no_action:
  "a_time a = Some t \<Longrightarrow> a_courier a = Some c \<Longrightarrow> a_action a = None \<Longrightarrow>
   process_action prob st a = reject st (Missing_required_field ''action'')"
  by (simp add: process_action_def)

text \<open>
  C3 at a log whose only record has no \<open>time\<close>: the sort raises before the loop, and the
  run ends with the exception, without a report.
\<close>

theorem missing_time_aborts_run:
  "main id (Some ex_problem) (Some [ex_no_time]) = Inl (KeyError ''time'')"
  by code_simp

subsection \<open>Two runs on the same files\<close>

lemma same_message_refl: "same_message m m"
  by (cases m) simp_all

lemma list_all2_same_message_refl: "list_all2 same_message ms ms"
  by (simp add: list_all2_refl same_message_refl)

lemma same_report_check_undelivered:
  assumes "mset (iter1 (undelivered prob st)) = mset (iter2 (undelivered prob st))"
  shows "same_report (calculate_score keys (check_undelivered iter1 prob st))
                     (calculate_score keys (check_undelivered iter2 prob st))"
proof -
  have e: "iter1 (undelivered prob st) = [] \<longleftrightarrow> iter2 (undelivered prob st) = []"
    using assms by (metis mset_zero_iff)
  show ?thesis
    using assms
    by (simp add: same_report_def calculate_score_def check_undelivered_def Let_def
        list_all2_appendI list_all2_same_message_refl)
qed

text \<open>
  C4, as the code has it. Two runs on the same two files may iterate the set of
  undelivered packages in different orders. They end alike (the same exception, or two
  reports), and two reports agree on the score, the components, the counts, the
  validity flag and the warnings; their error lists have the same length and the same
  messages in the same order, except that the final summary of undelivered packages
  may list the same ids in another order.
\<close>

theorem report_up_to_set_order:
  assumes "\<forall>xs. mset (iter1 xs) = mset xs" and "\<forall>xs. mset (iter2 xs) = mset xs"
  shows "same_result (validate_and_score iter1 input_file output_file)
                     (validate_and_score iter2 input_file output_file)"
proof (cases input_file)
  case None
  then show ?thesis
    by (simp add: validate_and_score_def same_report_def list_all2_same_message_refl)
next
  case (Some prob)
  note i = this
  show ?thesis
  proof (cases output_file)
    case None
    with i show ?thesis
      by (simp add: validate_and_score_def same_report_def list_all2_same_message_refl)
  next
    case (Some output_data)
    have m: "mset (iter1 (undelivered prob st)) = mset (iter2 (undelivered prob st))" for st
      using assms by simp
    show ?thesis
      using i Some
      by (cases "sorted_actions output_data")
         (simp_all add: validate_and_score_def same_report_check_undelivered m)
  qed
qed

theorem report_up_to_set_order_witness:
  "(\<forall>xs::string list. mset (id xs) = mset xs) \<and> (\<forall>xs::string list. mset (rev xs) = mset xs) \<and>
   same_result (validate_and_score id (Some ex_two_packages) (Some []))
               (validate_and_score rev (Some ex_two_packages) (Some []))"
  using report_up_to_set_order [of id rev "Some ex_two_packages" "Some []"] by simp

text \<open>
  Two undelivered packages, an empty log: the run that iterates the set in one order and
  the run that iterates it in the other print different error lists.
\<close>

theorem reports_differ_with_set_order:
  "validate_and_score id (Some ex_two_packages) (Some []) \<noteq>
   validate_and_score rev (Some ex_two_packages) (Some [])"
  by code_simp

subsection \<open>What the handlers leave alone\<close>

lemma reject_fields [simp]:
  "completion_time (reject st m) = completion_time st"
  "invalid_action_penalty (reject st m) = invalid_action_penalty st + 10"
  "delivered_packages (reject st m) = delivered_packages st"
  "courier_packages (reject st m) = courier_packages st"
  "courier_positions (reject st m) = courier_positions st"
  "package_point_contents (reject st m) = package_point_contents st"
  "package_status (reject st m) = package_status st"
  by (simp_all add: reject_def)

lemma pickup_loop_time:
  "completion_time (fst (pickup_loop prob c l t st pkgs)) = completion_time st"
  by (induction pkgs arbitrary: st) (simp_all split: option.splits)

lemma dropoff_loop_time:
  "completion_time (fst (dropoff_loop c l st pkgs)) = completion_time st"
  by (induction pkgs arbitrary: st) (simp_all split: option.splits)

lemma deliver_loop_time:
  "completion_time (fst (deliver_loop prob c l t st pkgs)) = completion_time st"
  by (induction pkgs arbitrary: st) (simp_all split: option.splits)

lemma pickup_loop_penalty:
  "invalid_action_penalty st \<le> invalid_action_penalty (fst (pickup_loop prob c l t st pkgs))"
proof (induction pkgs arbitrary: st)
  case Nil
  show ?case by simp
next
  case (Cons p pkgs)
  have r: "invalid_action_penalty st
             \<le> invalid_action_penalty (fst (pickup_loop prob c l t (reject st m) pkgs))" for m
    using Cons [of "reject st m"] by simp
  have u: "invalid_action_penalty st
             \<le> invalid_action_penalty (fst (pickup_loop prob c l t
                  (st\<lparr>package_status := ps, courier_packages := cp\<rparr>) pkgs))" for ps cp
    using Cons [of "st\<lparr>package_status := ps, courier_packages := cp\<rparr>"] by simp
  show ?case
    by (simp add: r u split: option.splits)
qed

lemma dropoff_loop_penalty:
  "invalid_action_penalty st \<le> invalid_action_penalty (fst (dropoff_loop c l st pkgs))"
proof (induction pkgs arbitrary: st)
  case Nil
  show ?case by simp
next
  case (Cons p pkgs)
  have r: "invalid_action_penalty st
             \<le> invalid_action_penalty (fst (dropoff_loop c l (reject st m) pkgs))" for m
    using Cons [of "reject st m"] by simp
  have u: "invalid_action_penalty st
             \<le> invalid_action_penalty (fst (dropoff_loop c l
                  (st\<lparr>package_status := ps, courier_packages := cp,
                      package_point_contents := pp\<rparr>) pkgs))" for ps cp pp
    using Cons [of "st\<lparr>package_status := ps, courier_packages := cp,
                      package_point_contents := pp\<rparr>"] by simp
  show ?case
    by (simp add: r u split: option.splits)
qed

lemma deliver_loop_penalty:
  "invalid_action_penalty st \<le> invalid_action_penalty (fst (deliver_loop prob c l t st pkgs))"
proof (induction pkgs arbitrary: st)
  case Nil
  show ?case by simp
next
  case (Cons p pkgs)
  have r: "invalid_action_penalty st
             \<le> invalid_action_penalty (fst (deliver_loop prob c l t (reject st m) pkgs))" for m
    using Cons [of "reject st m"] by simp
  have u: "invalid_action_penalty st
             \<le> invalid_action_penalty (fst (deliver_loop prob c l t
                  (st\<lparr>package_status := ps, courier_packages := cp,
                      delivered_packages := d\<rparr>) pkgs))" for ps cp d
    using Cons [of "st\<lparr>package_status := ps, courier_packages := cp,
                      delivered_packages := d\<rparr>"] by simp
  show ?case
    by (simp add: r u split: option.splits)
qed

lemma process_pickup_time:
  "completion_time (fst (process_pickup prob st a t)) = completion_time st"
  by (simp add: process_pickup_def Let_def pickup_loop_time split: option.splits)

lemma process_dropoff_time:
  "completion_time (fst (process_dropoff prob st a t)) = completion_time st"
  by (simp add: process_dropoff_def Let_def dropoff_loop_time split: option.splits)

lemma process_deliver_time:
  "completion_time (fst (process_deliver prob st a t)) = completion_time st"
  by (simp add: process_deliver_def Let_def deliver_loop_time split: option.splits)

lemma process_move_time:
  "completion_time (fst (process_move prob st a)) = completion_time st"
  by (simp add: process_move_def Let_def split: option.splits)

lemma process_wait_time:
  "completion_time (fst (process_wait prob st a)) = completion_time st"
  by (simp add: process_wait_def split: option.splits)

lemma process_pickup_penalty:
  "invalid_action_penalty st \<le> invalid_action_penalty (fst (process_pickup prob st a t))"
  by (simp add: process_pickup_def Let_def pickup_loop_penalty split: option.splits)

lemma process_dropoff_penalty:
  "invalid_action_penalty st \<le> invalid_action_penalty (fst (process_dropoff prob st a t))"
  by (simp add: process_dropoff_def Let_def dropoff_loop_penalty split: option.splits)

lemma process_deliver_penalty:
  "invalid_action_penalty st \<le> invalid_action_penalty (fst (process_deliver prob st a t))"
  by (simp add: process_deliver_def Let_def deliver_loop_penalty split: option.splits)

lemma process_move_penalty:
  "invalid_action_penalty st \<le> invalid_action_penalty (fst (process_move prob st a))"
  by (simp add: process_move_def Let_def split: option.splits)

lemma process_wait_penalty:
  "invalid_action_penalty st \<le> invalid_action_penalty (fst (process_wait prob st a))"
  by (simp add: process_wait_def split: option.splits)

lemma catch_time: "completion_time (catch out) = completion_time (fst out)"
  by (cases out rule: catch.cases) simp_all

lemma catch_penalty: "invalid_action_penalty (fst out) \<le> invalid_action_penalty (catch out)"
  by (cases out rule: catch.cases) simp_all

lemmas handler_time =
  process_pickup_time process_dropoff_time process_deliver_time process_move_time
  process_wait_time

lemmas handler_penalty =
  process_pickup_penalty process_dropoff_penalty process_deliver_penalty
  process_move_penalty process_wait_penalty

subsection \<open>One iteration, by cases\<close>

lemma update_completion_time_fields [simp]:
  "completion_time (update_completion_time st t) = max (completion_time st) t"
  "invalid_action_penalty (update_completion_time st t) = invalid_action_penalty st"
  "delivered_packages (update_completion_time st t) = delivered_packages st"
  "courier_packages (update_completion_time st t) = courier_packages st"
  "courier_positions (update_completion_time st t) = courier_positions st"
  "package_point_contents (update_completion_time st t) = package_point_contents st"
  "package_status (update_completion_time st t) = package_status st"
  by (simp_all add: update_completion_time_def)

text \<open>
  Whatever holds of the state after each way through the loop body holds after the
  iteration: a missing key, an unknown courier or action type, or one of the five
  handlers run on the state with the completion time updated.
\<close>

lemma process_action_cases:
  assumes "\<And>k. P (reject st (Missing_required_field k))"
    and "\<And>t m. a_time a = Some t \<Longrightarrow> P (reject (update_completion_time st t) m)"
    and "\<And>t. a_time a = Some t \<Longrightarrow>
           P (catch (process_pickup prob (update_completion_time st t) a t))"
    and "\<And>t. a_time a = Some t \<Longrightarrow>
           P (catch (process_dropoff prob (update_completion_time st t) a t))"
    and "\<And>t. a_time a = Some t \<Longrightarrow>
           P (catch (process_deliver prob (update_completion_time st t) a t))"
    and "\<And>t. a_time a = Some t \<Longrightarrow>
           P (catch (process_move prob (update_completion_time st t) a))"
    and "\<And>t. a_time a = Some t \<Longrightarrow>
           P (catch (process_wait prob (update_completion_time st t) a))"
  shows "P (process_action prob st a)"
proof (cases "a_time a")
  case None
  then show ?thesis by (simp add: process_action_def assms(1))
next
  case (Some t)
  note t = this
  show ?thesis
  proof (cases "a_courier a")
    case None
    with t show ?thesis by (simp add: process_action_def assms(1))
  next
    case (Some c)
    note c = this
    show ?thesis
    proof (cases "a_action a")
      case None
      with t c show ?thesis by (simp add: process_action_def assms(1))
    next
      case (Some k)
      have e: "process_action prob st a =
          (if couriers prob c = None then reject (update_completion_time st t) (Invalid_courier_ID c)
           else if k = ''pick_up'' then catch (process_pickup prob (update_completion_time st t) a t)
           else if k = ''drop_off'' then catch (process_dropoff prob (update_completion_time st t) a t)
           else if k = ''deliver'' then catch (process_deliver prob (update_completion_time st t) a t)
           else if k = ''move'' then catch (process_move prob (update_completion_time st t) a)
           else if k = ''wait'' then catch (process_wait prob (update_completion_time st t) a)
           else reject (update_completion_time st t) (Invalid_action_type k))"
        using t c Some by (simp add: process_action_def Let_def)
      show ?thesis
        unfolding e using assms(2-7) [OF t] by presburger
    qed
  qed
qed

subsection \<open>Completion time\<close>

text \<open>
  One iteration never lowers the penalty; when it leaves the penalty as it was, the record
  had its three keys, and the completion time is the larger of the old one and the
  record's time.
\<close>

lemma catch_handler_penalty:
  assumes "invalid_action_penalty st \<le> invalid_action_penalty (fst out)"
  shows "invalid_action_penalty st \<le> invalid_action_penalty (catch out)"
  using assms catch_penalty [of out] by linarith

lemma process_action_penalty:
  "invalid_action_penalty st \<le> invalid_action_penalty (process_action prob st a)"
proof (rule process_action_cases)
  fix t
  let ?st = "update_completion_time st t"
  have s: "invalid_action_penalty ?st = invalid_action_penalty st" by simp
  show "invalid_action_penalty st \<le> invalid_action_penalty (catch (process_pickup prob ?st a t))"
    using process_pickup_penalty [of ?st prob a t] catch_penalty [of "process_pickup prob ?st a t"] s
    by linarith
  show "invalid_action_penalty st \<le> invalid_action_penalty (catch (process_dropoff prob ?st a t))"
    using process_dropoff_penalty [of ?st prob a t] catch_penalty [of "process_dropoff prob ?st a t"] s
    by linarith
  show "invalid_action_penalty st \<le> invalid_action_penalty (catch (process_deliver prob ?st a t))"
    using process_deliver_penalty [of ?st prob a t] catch_penalty [of "process_deliver prob ?st a t"] s
    by linarith
  show "invalid_action_penalty st \<le> invalid_action_penalty (catch (process_move prob ?st a))"
    using process_move_penalty [of ?st prob a] catch_penalty [of "process_move prob ?st a"] s
    by linarith
  show "invalid_action_penalty st \<le> invalid_action_penalty (catch (process_wait prob ?st a))"
    using process_wait_penalty [of ?st prob a] catch_penalty [of "process_wait prob ?st a"] s
    by linarith
qed simp_all

lemma process_action_time:
  "invalid_action_penalty (process_action prob st a) = invalid_action_penalty st \<longrightarrow>
     (\<exists>t. a_time a = Some t \<and>
          completion_time (process_action prob st a) = max (completion_time st) t)"
  by (rule process_action_cases) (simp_all add: catch_time handler_time)

lemma process_all_penalty:
  "invalid_action_penalty st \<le> invalid_action_penalty (process_all prob st acts)"
proof (induction acts arbitrary: st)
  case Nil
  show ?case by (simp add: process_all_def)
next
  case (Cons a acts)
  have "invalid_action_penalty st \<le> invalid_action_penalty (process_action prob st a)"
    by (rule process_action_penalty)
  also have "\<dots> \<le> invalid_action_penalty (process_all prob (process_action prob st a) acts)"
    by (rule Cons)
  finally show ?case by (simp add: process_all_def)
qed

lemma process_all_time:
  assumes "invalid_action_penalty (process_all prob st acts) = invalid_action_penalty st"
  shows "completion_time (process_all prob st acts) =
           Max (insert (completion_time st) ((\<lambda>a. the (a_time a)) ` set acts))"
  using assms
proof (induction acts arbitrary: st)
  case Nil
  show ?case by (simp add: process_all_def)
next
  case (Cons a acts)
  let ?st = "process_action prob st a"
  have le1: "invalid_action_penalty st \<le> invalid_action_penalty ?st"
    by (rule process_action_penalty)
  have le2: "invalid_action_penalty ?st \<le> invalid_action_penalty (process_all prob ?st acts)"
    by (rule process_all_penalty)
  have e: "process_all prob st (a # acts) = process_all prob ?st acts"
    by (simp add: process_all_def)
  from Cons.prems le1 le2 have e1: "invalid_action_penalty ?st = invalid_action_penalty st"
    and e2: "invalid_action_penalty (process_all prob ?st acts) = invalid_action_penalty ?st"
    unfolding e by linarith+
  from process_action_time [of prob st a] e1 obtain t where
    t: "a_time a = Some t" and m: "completion_time ?st = max (completion_time st) t"
    by blast
  have "completion_time (process_all prob ?st acts) =
          Max (insert (max (completion_time st) t) ((\<lambda>a. the (a_time a)) ` set acts))"
    using Cons.IH [OF e2] m by simp
  also have "\<dots> = Max (insert (completion_time st) (insert t ((\<lambda>a. the (a_time a)) ` set acts)))"
    by (cases "acts = []") (simp_all add: max.assoc max.commute max.left_commute)
  finally show ?case
    unfolding e using t by simp
qed

subsection \<open>The initial state and the sorted log\<close>

lemma foldl_keeps:
  assumes "\<And>s x. g (f s x) = g s"
  shows "g (foldl f s xs) = g s"
  by (induction xs arbitrary: s) (simp_all add: assms)

lemma initialize_tracking_fields:
  "completion_time (initialize_tracking prob) = 0"
  "invalid_action_penalty (initialize_tracking prob) = 0"
  "delivered_packages (initialize_tracking prob) = {}"
  "errors (initialize_tracking prob) = []"
  unfolding initialize_tracking_def
  by (simp_all add: foldl_keeps [where g = completion_time]
        foldl_keeps [where g = invalid_action_penalty]
        foldl_keeps [where g = delivered_packages] foldl_keeps [where g = errors]
        init_package_def init_courier_def init_location_def empty_state_def)

lemma sorted_actions_Inr:
  assumes "sorted_actions output_data = Inr acts"
  shows "acts = sort_key (\<lambda>x. the (a_time x)) output_data" and "set acts = set output_data"
  using assms by (auto simp: sorted_actions_def split: if_splits)

lemma validate_and_score_Inr:
  assumes "validate_and_score iter (Some prob) (Some output_data) = Inr r"
  shows "r = calculate_score (package_keys prob)
               (check_undelivered iter prob
                  (process_all prob (initialize_tracking prob)
                     (sort_key (\<lambda>x. the (a_time x)) output_data)))"
  using assms
  by (auto simp: validate_and_score_def sorted_actions_def split: if_splits)

lemma check_undelivered_fields:
  "completion_time (check_undelivered iter prob st) = completion_time st"
  "invalid_action_penalty (check_undelivered iter prob st) = invalid_action_penalty st"
  "delivered_packages (check_undelivered iter prob st) = delivered_packages st"
  "undelivered_penalty (check_undelivered iter prob st) = int (length (undelivered prob st)) * 100"
  "errors (check_undelivered iter prob st) =
     errors st @ (if undelivered prob st \<noteq> []
                  then [Undelivered_packages (iter (undelivered prob st))] else [])"
  by (simp_all add: check_undelivered_def Let_def)

text \<open>
  C5. The score is the sum of the three components. When a run on two loaded files ends
  with both penalties at 0, on a non-empty log whose times are all at least 0, the score
  is the completion time, and the completion time is the largest time in the log.
\<close>

theorem score_is_completion_time:
  assumes "validate_and_score iter input_file output_file = Inr r"
  shows "score r = r_completion_time r + r_undelivered_penalty r + r_invalid_action_penalty r
       \<and> (input_file \<noteq> None \<and> output_file = Some output_data \<and> output_data \<noteq> []
            \<and> (\<forall>a \<in> set output_data. 0 \<le> the (a_time a))
            \<and> r_undelivered_penalty r = 0 \<and> r_invalid_action_penalty r = 0
          \<longrightarrow> score r = r_completion_time r
              \<and> r_completion_time r = Max ((\<lambda>a. the (a_time a)) ` set output_data))"
proof -
  have sum: "score r = r_completion_time r + r_undelivered_penalty r + r_invalid_action_penalty r"
    using assms
    by (auto simp: validate_and_score_def calculate_score_def
             split: option.splits sum.splits)
  have "r_completion_time r = Max ((\<lambda>a. the (a_time a)) ` set output_data)"
    if i: "input_file \<noteq> None" and o: "output_file = Some output_data"
      and ne: "output_data \<noteq> []" and pos: "\<forall>a \<in> set output_data. 0 \<le> the (a_time a)"
      and z: "r_invalid_action_penalty r = 0"
  proof -
    from i obtain prob where p: "input_file = Some prob" by blast
    let ?acts = "sort_key (\<lambda>x. the (a_time x)) output_data"
    let ?st = "process_all prob (initialize_tracking prob) ?acts"
    let ?T = "(\<lambda>a. the (a_time a)) ` set output_data"
    have r: "r = calculate_score (package_keys prob) (check_undelivered iter prob ?st)"
      using assms p o by (simp add: validate_and_score_Inr)
    have "invalid_action_penalty ?st = 0"
      using z unfolding r by (simp add: calculate_score_def check_undelivered_fields)
    then have "invalid_action_penalty ?st = invalid_action_penalty (initialize_tracking prob)"
      by (simp add: initialize_tracking_fields)
    from process_all_time [OF this]
    have "completion_time ?st = Max (insert 0 ?T)"
      by (simp add: initialize_tracking_fields)
    moreover have "Max (insert 0 ?T) = Max ?T"
    proof -
      have f: "finite ?T" and n: "?T \<noteq> {}" using ne by simp_all
      from ne obtain a where a: "a \<in> set output_data" by (cases output_data) auto
      have "0 \<le> the (a_time a)" using pos a by blast
      also have "\<dots> \<le> Max ?T" using f a by (simp add: Max_ge)
      finally have "0 \<le> Max ?T" .
      then show ?thesis using f n by (simp add: max_def)
    qed
    ultimately show ?thesis
      unfolding r by (simp add: calculate_score_def check_undelivered_fields)
  qed
  with sum show ?thesis by auto
qed

theorem score_is_completion_time_witness:
  "score (calculate_score (package_keys ex_problem)
      (check_undelivered id ex_problem (process_all ex_problem (initialize_tracking ex_problem) ex_log))) = 3
   \<and> Max ((\<lambda>a. the (a_time a)) ` set ex_log) = 3"
proof -
  let ?r = "\<lparr>score = 3, r_completion_time = 3, r_undelivered_penalty = 0,
             r_invalid_action_penalty = 0, r_errors = [], r_warnings = [],
             r_delivered_packages = 1, r_total_packages = 1, is_valid = True\<rparr>"
  have v: "validate_and_score id (Some ex_problem) (Some ex_log) = Inr ?r"
    by code_simp
  have h: "Some ex_problem \<noteq> None \<and> Some ex_log = Some ex_log \<and> ex_log \<noteq> []
           \<and> (\<forall>a \<in> set ex_log. 0 \<le> the (a_time a))
           \<and> r_undelivered_penalty ?r = 0 \<and> r_invalid_action_penalty ?r = 0"
    by (simp add: ex_log_def ex_at_def ex_move_def)
  have s: "calculate_score (package_keys ex_problem)
      (check_undelivered id ex_problem (process_all ex_problem (initialize_tracking ex_problem) ex_log))
      = ?r"
    by code_simp
  show ?thesis
    using score_is_completion_time [OF v, of ex_log] h s by simp
qed

subsection \<open>Delivered packages are packages of the problem\<close>

lemma dom_packages: "dom (packages prob) = set (package_keys prob)"
  by (auto simp: packages_def package_keys_def dom_map_of_conv_image_fst image_iff)

lemma pickup_loop_delivered:
  "delivered_packages (fst (pickup_loop prob c l t st pkgs)) = delivered_packages st"
  by (induction pkgs arbitrary: st) (simp_all split: option.splits)

lemma dropoff_loop_delivered:
  "delivered_packages (fst (dropoff_loop c l st pkgs)) = delivered_packages st"
  by (induction pkgs arbitrary: st) (simp_all split: option.splits)

lemma deliver_loop_delivered:
  "delivered_packages (fst (deliver_loop prob c l t st pkgs))
     \<subseteq> delivered_packages st \<union> dom (packages prob)"
proof (induction pkgs arbitrary: st)
  case Nil
  show ?case by simp
next
  case (Cons p pkgs)
  have r: "delivered_packages (fst (deliver_loop prob c l t (reject st m) pkgs))
             \<subseteq> delivered_packages st \<union> dom (packages prob)" for m
    using Cons [of "reject st m"] by simp
  have u: "delivered_packages (fst (deliver_loop prob c l t
             (st\<lparr>package_status := ps, courier_packages := cp,
                 delivered_packages := insert p (delivered_packages st)\<rparr>) pkgs))
             \<subseteq> delivered_packages st \<union> dom (packages prob)"
    if "packages prob p = Some pk" for ps cp pk
    using Cons [of "st\<lparr>package_status := ps, courier_packages := cp,
                 delivered_packages := insert p (delivered_packages st)\<rparr>"] that
    by auto
  show ?case
    by (simp add: r u split: option.splits)
qed

lemma process_delivered:
  "delivered_packages (fst (process_pickup prob st a t)) = delivered_packages st"
  "delivered_packages (fst (process_dropoff prob st a t)) = delivered_packages st"
  "delivered_packages (fst (process_move prob st a)) = delivered_packages st"
  "delivered_packages (fst (process_wait prob st a)) = delivered_packages st"
  by (simp_all add: process_pickup_def process_dropoff_def process_move_def process_wait_def
        Let_def pickup_loop_delivered dropoff_loop_delivered split: option.splits)

lemma process_deliver_delivered:
  "delivered_packages (fst (process_deliver prob st a t))
     \<subseteq> delivered_packages st \<union> dom (packages prob)"
  by (simp add: process_deliver_def Let_def deliver_loop_delivered split: option.splits)

lemma catch_delivered: "delivered_packages (catch out) = delivered_packages (fst out)"
  by (cases out rule: catch.cases) simp_all

lemma process_action_delivered:
  "delivered_packages (process_action prob st a) \<subseteq> delivered_packages st \<union> dom (packages prob)"
proof (rule process_action_cases)
  fix t
  show "delivered_packages (catch (process_deliver prob (update_completion_time st t) a t))
          \<subseteq> delivered_packages st \<union> dom (packages prob)"
    using process_deliver_delivered [of prob "update_completion_time st t" a t]
    by (simp add: catch_delivered)
qed (simp_all add: catch_delivered process_delivered)

lemma process_all_delivered:
  "delivered_packages (process_all prob st acts) \<subseteq> delivered_packages st \<union> dom (packages prob)"
proof (induction acts arbitrary: st)
  case Nil
  show ?case by (simp add: process_all_def)
next
  case (Cons a acts)
  have "delivered_packages (process_all prob (process_action prob st a) acts)
          \<subseteq> delivered_packages (process_action prob st a) \<union> dom (packages prob)"
    by (rule Cons)
  with process_action_delivered [of prob st a] show ?case
    by (auto simp: process_all_def)
qed

lemma undelivered_count:
  assumes "delivered_packages st \<subseteq> set (package_keys prob)"
  shows "length (undelivered prob st) + card (delivered_packages st) = length (package_keys prob)"
proof -
  let ?K = "set (package_keys prob)" and ?D = "delivered_packages st"
  have d: "distinct (package_keys prob)" by (simp add: package_keys_def)
  have f: "finite ?D" using assms by (rule finite_subset) simp
  have "length (undelivered prob st) = card (?K - ?D)"
    unfolding undelivered_def
    by (simp add: distinct_length_filter [OF d] Diff_eq Int_commute Collect_neg_eq)
  also have "\<dots> = card ?K - card ?D"
    using f assms by (simp add: card_Diff_subset)
  finally have "length (undelivered prob st) = length (package_keys prob) - card ?D"
    using d by (simp add: distinct_card)
  moreover have "card ?D \<le> length (package_keys prob)"
    using assms d by (metis card_mono distinct_card List.finite_set)
  ultimately show ?thesis by simp
qed

text \<open>
  C6, as the code has it. The penalty for undelivered packages is 100 times the number
  of packages minus the number of delivered ones, a non-negative multiple of 100. When
  that number is not 0, the sweep appends one summary message, naming the undelivered
  ids, to the error list: the list is the one the loop left, followed by that message.
\<close>

theorem undelivered_penalty_and_summary:
  assumes "validate_and_score iter (Some prob) (Some output_data) = Inr r"
  shows "r_undelivered_penalty r = 100 * (int (r_total_packages r) - int (r_delivered_packages r))
       \<and> r_delivered_packages r \<le> r_total_packages r
       \<and> 0 \<le> r_undelivered_penalty r \<and> 100 dvd r_undelivered_penalty r
       \<and> (\<exists>es ids. r_errors r =
              es @ (if r_delivered_packages r < r_total_packages r
                    then [Undelivered_packages ids] else [])
            \<and> es = errors (process_all prob (initialize_tracking prob)
                             (sort_key (\<lambda>x. the (a_time x)) output_data))
            \<and> mset ids = mset (iter (undelivered prob
                  (process_all prob (initialize_tracking prob)
                     (sort_key (\<lambda>x. the (a_time x)) output_data)))))"
proof -
  let ?st = "process_all prob (initialize_tracking prob)
               (sort_key (\<lambda>x. the (a_time x)) output_data)"
  have r: "r = calculate_score (package_keys prob) (check_undelivered iter prob ?st)"
    using assms by (rule validate_and_score_Inr)
  have "delivered_packages ?st \<subseteq> set (package_keys prob)"
    using process_all_delivered [of prob "initialize_tracking prob"]
    by (simp add: initialize_tracking_fields dom_packages)
  from undelivered_count [OF this]
  have c: "length (undelivered prob ?st) + card (delivered_packages ?st)
             = length (package_keys prob)" .
  have f: "r_total_packages r = length (package_keys prob)"
    "r_delivered_packages r = card (delivered_packages ?st)"
    "r_undelivered_penalty r = int (length (undelivered prob ?st)) * 100"
    "r_errors r = errors ?st @ (if undelivered prob ?st \<noteq> []
                  then [Undelivered_packages (iter (undelivered prob ?st))] else [])"
    unfolding r by (simp_all add: calculate_score_def check_undelivered_fields)
  have n: "undelivered prob ?st \<noteq> [] \<longleftrightarrow> r_delivered_packages r < r_total_packages r"
    using c f(1,2) by (cases "undelivered prob ?st") auto
  have "int (length (undelivered prob ?st)) =
          int (length (package_keys prob)) - int (card (delivered_packages ?st))"
    using c by linarith
  then have p: "r_undelivered_penalty r =
                  100 * (int (r_total_packages r) - int (r_delivered_packages r))"
    using f(1,2,3) by simp
  have le: "r_delivered_packages r \<le> r_total_packages r"
    using c f(1,2) by linarith
  have e: "r_errors r = errors ?st @ (if r_delivered_packages r < r_total_packages r
                    then [Undelivered_packages (iter (undelivered prob ?st))] else [])"
    using f(4) n by simp
  show ?thesis
    using p le e f(3) by auto
qed

theorem undelivered_penalty_and_summary_witness:
  "r_undelivered_penalty (calculate_score (package_keys ex_problem)
      (check_undelivered id ex_problem
         (process_all ex_problem (initialize_tracking ex_problem) ex_log_drop))) = 100 * (1 - 0)
   \<and> r_errors (calculate_score (package_keys ex_problem)
      (check_undelivered id ex_problem
         (process_all ex_problem (initialize_tracking ex_problem) ex_log_drop)))
      = [Undelivered_packages [''PKG1'']]"
proof -
  let ?r = "\<lparr>score = 102, r_completion_time = 2, r_undelivered_penalty = 100,
             r_invalid_action_penalty = 0, r_errors = [Undelivered_packages [''PKG1'']],
             r_warnings = [], r_delivered_packages = 0, r_total_packages = 1,
             is_valid = False\<rparr>"
  have v: "validate_and_score id (Some ex_problem) (Some ex_log_drop) = Inr ?r"
    by code_simp
  have s: "calculate_score (package_keys ex_problem)
      (check_undelivered id ex_problem
         (process_all ex_problem (initialize_tracking ex_problem) ex_log_drop)) = ?r"
    by code_simp
  show ?thesis
    using undelivered_penalty_and_summary [OF v] s by simp
qed

text \<open>
  An empty log on the instance with one package: the undelivered package puts an entry
  into the error list, and the report is not valid.
\<close>

theorem undelivered_summary_is_an_error:
  "validate_and_score id (Some ex_problem) (Some []) =
     Inr \<lparr>score = 100, r_completion_time = 0, r_undelivered_penalty = 100,
          r_invalid_action_penalty = 0, r_errors = [Undelivered_packages [''PKG1'']],
          r_warnings = [], r_delivered_packages = 0, r_total_packages = 1,
          is_valid = False\<rparr>"
  by code_simp

subsection \<open>Rules for the loops and the handlers\<close>

text \<open>
  A property \<open>P n\<close> of the state after \<open>n\<close> iterations holds after a loop when it
  holds at the start and every way through the loop body carries it from \<open>n\<close> to
  \<open>n + 1\<close>. The state that a raised exception leaves behind is covered as well.
\<close>

lemma pickup_loop_rule_aux:
  assumes rej: "\<And>n s m. P n s \<Longrightarrow> P (Suc n) (reject s m)"
    and upd: "\<And>n s p pk pst carried. P n s \<Longrightarrow> packages prob p = Some pk \<Longrightarrow>
           package_status s p = Some pst \<Longrightarrow> status pst = At_warehouse \<Longrightarrow>
           courier_packages s c = Some carried \<Longrightarrow>
           P (Suc n) (s\<lparr>package_status := (package_status s)
                          (p \<mapsto> pst\<lparr>status := With_courier, holder := c\<rparr>),
                        courier_packages := (courier_packages s)(c \<mapsto> carried @ [p])\<rparr>)"
    and exn: "\<And>n s p pst. P n s \<Longrightarrow> package_status s p = Some pst \<Longrightarrow>
           status pst = At_warehouse \<Longrightarrow> courier_packages s c = None \<Longrightarrow>
           P (Suc n) (s\<lparr>package_status := (package_status s)
                          (p \<mapsto> pst\<lparr>status := With_courier, holder := c\<rparr>)\<rparr>)"
    and mono: "\<And>n s. P n s \<Longrightarrow> P (Suc n) s"
  shows "P n st \<Longrightarrow> P (n + length pkgs) (fst (pickup_loop prob c l t st pkgs))"
proof (induction pkgs arbitrary: st n)
  case Nil
  then show ?case by simp
next
  case (Cons p pkgs)
  have step: "P (n + length (p # pkgs)) (fst (pickup_loop prob c l t s pkgs))"
    if "P (Suc n) s" for s
    using Cons.IH [OF that] by simp
  have stop: "P (n + length (p # pkgs)) s" if "P (Suc n) s" for s
    using that
  proof (induction pkgs)
    case Nil
    then show ?case by simp
  next
    case (Cons q qs)
    then show ?case using mono [of "n + length (p # qs)" s] by simp
  qed
  show ?case
  proof (cases "packages prob p")
    case None
    then show ?thesis using step [OF rej [OF Cons.prems]] by simp
  next
    case (Some pk)
    note pk = this
    show ?thesis
    proof (cases "package_status st p")
      case None
      with pk show ?thesis using stop [OF mono [OF Cons.prems]] by simp
    next
      case (Some pst)
      note pst = this
      show ?thesis
      proof (cases "p_origin pk \<noteq> l \<or> status pst \<noteq> At_warehouse \<or> t < p_arrival_time pk")
        case True
        then show ?thesis
          using pk pst step [OF rej [OF Cons.prems]] by auto
      next
        case False
        show ?thesis
        proof (cases "courier_packages st c")
          case None
          then show ?thesis
            using pk pst False stop [OF exn [OF Cons.prems pst _ None]] by simp
        next
          case (Some carried)
          then show ?thesis
            using pk pst False step [OF upd [OF Cons.prems pk pst _ Some]] by simp
        qed
      qed
    qed
  qed
qed

lemma dropoff_loop_rule_aux:
  assumes rej: "\<And>n s m. P n s \<Longrightarrow> P (Suc n) (reject s m)"
    and upd: "\<And>n s p pst carried contents. P n s \<Longrightarrow>
           courier_packages s c = Some carried \<Longrightarrow> p \<in> set carried \<Longrightarrow>
           package_status s p = Some pst \<Longrightarrow> package_point_contents s l = Some contents \<Longrightarrow>
           P (Suc n) (s\<lparr>package_status := (package_status s)
                          (p \<mapsto> pst\<lparr>status := At_package_point, holder := l\<rparr>),
                        courier_packages := (courier_packages s)(c \<mapsto> remove1 p carried),
                        package_point_contents := (package_point_contents s)
                          (l \<mapsto> contents @ [p])\<rparr>)"
    and exn: "\<And>n s p pst carried. P n s \<Longrightarrow>
           courier_packages s c = Some carried \<Longrightarrow> p \<in> set carried \<Longrightarrow>
           package_status s p = Some pst \<Longrightarrow> package_point_contents s l = None \<Longrightarrow>
           P (Suc n) (s\<lparr>package_status := (package_status s)
                          (p \<mapsto> pst\<lparr>status := At_package_point, holder := l\<rparr>),
                        courier_packages := (courier_packages s)(c \<mapsto> remove1 p carried)\<rparr>)"
    and mono: "\<And>n s. P n s \<Longrightarrow> P (Suc n) s"
  shows "P n st \<Longrightarrow> P (n + length pkgs) (fst (dropoff_loop c l st pkgs))"
proof (induction pkgs arbitrary: st n)
  case Nil
  then show ?case by simp
next
  case (Cons p pkgs)
  have step: "P (n + length (p # pkgs)) (fst (dropoff_loop c l s pkgs))"
    if "P (Suc n) s" for s
    using Cons.IH [OF that] by simp
  have stop: "P (n + length (p # pkgs)) s" if "P (Suc n) s" for s
    using that
  proof (induction pkgs)
    case Nil
    then show ?case by simp
  next
    case (Cons q qs)
    then show ?case using mono [of "n + length (p # qs)" s] by simp
  qed
  show ?case
  proof (cases "courier_packages st c")
    case None
    then show ?thesis using stop [OF mono [OF Cons.prems]] by simp
  next
    case (Some carried)
    note carried = this
    show ?thesis
    proof (cases "p \<in> set carried")
      case False
      then show ?thesis using carried step [OF rej [OF Cons.prems]] by simp
    next
      case True
      note mem = this
      show ?thesis
      proof (cases "package_status st p")
        case None
        then show ?thesis using carried mem stop [OF mono [OF Cons.prems]] by simp
      next
        case (Some pst)
        note pst = this
        show ?thesis
        proof (cases "package_point_contents st l")
          case None
          then show ?thesis
            using carried mem pst stop [OF exn [OF Cons.prems carried mem pst None]] by simp
        next
          case (Some contents)
          then show ?thesis
            using carried mem pst step [OF upd [OF Cons.prems carried mem pst Some]] by simp
        qed
      qed
    qed
  qed
qed

lemma deliver_loop_rule_aux:
  assumes rej: "\<And>n s m. P n s \<Longrightarrow> P (Suc n) (reject s m)"
    and upd: "\<And>n s p pk pst carried. P n s \<Longrightarrow>
           courier_packages s c = Some carried \<Longrightarrow> p \<in> set carried \<Longrightarrow>
           packages prob p = Some pk \<Longrightarrow> package_status s p = Some pst \<Longrightarrow>
           P (Suc n) (s\<lparr>package_status := (package_status s)
                          (p \<mapsto> pst\<lparr>status := Delivered, holder := l,
                                    delivery_time := Some t\<rparr>),
                        courier_packages := (courier_packages s)(c \<mapsto> remove1 p carried),
                        delivered_packages := insert p (delivered_packages s)\<rparr>)"
    and mono: "\<And>n s. P n s \<Longrightarrow> P (Suc n) s"
  shows "P n st \<Longrightarrow> P (n + length pkgs) (fst (deliver_loop prob c l t st pkgs))"
proof (induction pkgs arbitrary: st n)
  case Nil
  then show ?case by simp
next
  case (Cons p pkgs)
  have step: "P (n + length (p # pkgs)) (fst (deliver_loop prob c l t s pkgs))"
    if "P (Suc n) s" for s
    using Cons.IH [OF that] by simp
  have stop: "P (n + length (p # pkgs)) s" if "P (Suc n) s" for s
    using that
  proof (induction pkgs)
    case Nil
    then show ?case by simp
  next
    case (Cons q qs)
    then show ?case using mono [of "n + length (p # qs)" s] by simp
  qed
  show ?case
  proof (cases "courier_packages st c")
    case None
    then show ?thesis using stop [OF mono [OF Cons.prems]] by simp
  next
    case (Some carried)
    note carried = this
    show ?thesis
    proof (cases "p \<in> set carried")
      case False
      then show ?thesis using carried step [OF rej [OF Cons.prems]] by simp
    next
      case True
      note mem = this
      show ?thesis
      proof (cases "packages prob p")
        case None
        then show ?thesis using carried mem stop [OF mono [OF Cons.prems]] by simp
      next
        case (Some pk)
        note pk = this
        show ?thesis
        proof (cases "p_destination pk \<noteq> l")
          case True
          then show ?thesis using carried mem pk step [OF rej [OF Cons.prems]] by simp
        next
          case False
          note dest = this
          show ?thesis
          proof (cases "package_status st p")
            case None
            then show ?thesis
              using carried mem pk dest stop [OF mono [OF Cons.prems]] by simp
          next
            case (Some pst)
            then show ?thesis
              using carried mem pk dest step [OF upd [OF Cons.prems carried mem pk Some]]
              by simp
          qed
        qed
      qed
    qed
  qed
qed

text \<open>The same rules for a property that does not count the iterations.\<close>

lemma pickup_loop_rule:
  assumes "Q st"
    and "\<And>s m. Q s \<Longrightarrow> Q (reject s m)"
    and "\<And>s p pk pst carried. Q s \<Longrightarrow> packages prob p = Some pk \<Longrightarrow>
           package_status s p = Some pst \<Longrightarrow> status pst = At_warehouse \<Longrightarrow>
           courier_packages s c = Some carried \<Longrightarrow>
           Q (s\<lparr>package_status := (package_status s)
                  (p \<mapsto> pst\<lparr>status := With_courier, holder := c\<rparr>),
                courier_packages := (courier_packages s)(c \<mapsto> carried @ [p])\<rparr>)"
    and "\<And>s p pst. Q s \<Longrightarrow> package_status s p = Some pst \<Longrightarrow>
           status pst = At_warehouse \<Longrightarrow> courier_packages s c = None \<Longrightarrow>
           Q (s\<lparr>package_status := (package_status s)
                  (p \<mapsto> pst\<lparr>status := With_courier, holder := c\<rparr>)\<rparr>)"
  shows "Q (fst (pickup_loop prob c l t st pkgs))"
proof (rule pickup_loop_rule_aux [where P = "\<lambda>n s. Q s" and n = 0 and pkgs = pkgs, simplified])
  show "Q st" by fact
qed (blast intro: assms)+

lemma dropoff_loop_rule:
  assumes "Q st"
    and "\<And>s m. Q s \<Longrightarrow> Q (reject s m)"
    and "\<And>s p pst carried contents. Q s \<Longrightarrow>
           courier_packages s c = Some carried \<Longrightarrow> p \<in> set carried \<Longrightarrow>
           package_status s p = Some pst \<Longrightarrow> package_point_contents s l = Some contents \<Longrightarrow>
           Q (s\<lparr>package_status := (package_status s)
                  (p \<mapsto> pst\<lparr>status := At_package_point, holder := l\<rparr>),
                courier_packages := (courier_packages s)(c \<mapsto> remove1 p carried),
                package_point_contents := (package_point_contents s)
                  (l \<mapsto> contents @ [p])\<rparr>)"
    and "\<And>s p pst carried. Q s \<Longrightarrow>
           courier_packages s c = Some carried \<Longrightarrow> p \<in> set carried \<Longrightarrow>
           package_status s p = Some pst \<Longrightarrow> package_point_contents s l = None \<Longrightarrow>
           Q (s\<lparr>package_status := (package_status s)
                  (p \<mapsto> pst\<lparr>status := At_package_point, holder := l\<rparr>),
                courier_packages := (courier_packages s)(c \<mapsto> remove1 p carried)\<rparr>)"
  shows "Q (fst (dropoff_loop c l st pkgs))"
proof (rule dropoff_loop_rule_aux [where P = "\<lambda>n s. Q s" and n = 0 and pkgs = pkgs, simplified])
  show "Q st" by fact
qed (blast intro: assms)+

lemma deliver_loop_rule:
  assumes "Q st"
    and "\<And>s m. Q s \<Longrightarrow> Q (reject s m)"
    and "\<And>s p pk pst carried. Q s \<Longrightarrow>
           courier_packages s c = Some carried \<Longrightarrow> p \<in> set carried \<Longrightarrow>
           packages prob p = Some pk \<Longrightarrow> package_status s p = Some pst \<Longrightarrow>
           Q (s\<lparr>package_status := (package_status s)
                  (p \<mapsto> pst\<lparr>status := Delivered, holder := l, delivery_time := Some t\<rparr>),
                courier_packages := (courier_packages s)(c \<mapsto> remove1 p carried),
                delivered_packages := insert p (delivered_packages s)\<rparr>)"
  shows "Q (fst (deliver_loop prob c l t st pkgs))"
proof (rule deliver_loop_rule_aux [where P = "\<lambda>n s. Q s" and n = 0 and pkgs = pkgs, simplified])
  show "Q st" by fact
qed (blast intro: assms)+

text \<open>
  A handler ends in one of three ways: it raises before it has written anything, it
  rejects the action, or it runs its loop after the checks have passed.
\<close>

lemma process_pickup_cases:
  assumes "P st" and "\<And>m. P (reject st m)"
    and "\<And>c l cr carried. a_courier a = Some c \<Longrightarrow> couriers prob c = Some cr \<Longrightarrow>
           courier_packages st c = Some carried \<Longrightarrow>
           int (length carried) + int (length (listed_packages a)) \<le> c_capacity cr \<Longrightarrow>
           P (fst (pickup_loop prob c l t st (listed_packages a)))"
  shows "P (fst (process_pickup prob st a t))"
  using assms
  by (simp add: process_pickup_def Let_def split: option.splits)

lemma process_dropoff_cases:
  assumes "P st" and "\<And>m. P (reject st m)"
    and "\<And>c l loc cap contents. a_courier a = Some c \<Longrightarrow> locations prob l = Some loc \<Longrightarrow>
           l_type loc = ''package_point'' \<Longrightarrow> l_capacity loc = Some cap \<Longrightarrow>
           package_point_contents st l = Some contents \<Longrightarrow>
           int (length contents) + int (length (listed_packages a)) \<le> cap \<Longrightarrow>
           P (fst (dropoff_loop c l st (listed_packages a)))"
  shows "P (fst (process_dropoff prob st a t))"
  using assms
  by (simp add: process_dropoff_def Let_def split: option.splits)

lemma process_deliver_cases:
  assumes "P st" and "\<And>m. P (reject st m)"
    and "\<And>c l. P (fst (deliver_loop prob c l t st (listed_packages a)))"
  shows "P (fst (process_deliver prob st a t))"
  using assms
  by (simp add: process_deliver_def Let_def split: option.splits)

lemma process_move_cases:
  assumes "P st" and "\<And>m. P (reject st m)"
    and "\<And>c to_pos. P (st\<lparr>courier_positions := (courier_positions st)(c \<mapsto> Some to_pos)\<rparr>)"
  shows "P (fst (process_move prob st a))"
  using assms
  by (simp add: process_move_def Let_def split: option.splits)

lemma process_wait_cases:
  assumes "P st" and "\<And>m. P (reject st m)"
  shows "P (fst (process_wait prob st a))"
  using assms
  by (simp add: process_wait_def split: option.splits)

lemma catch_cases:
  assumes "P (fst out)" and "\<And>m. P (reject (fst out) m)"
  shows "P (catch out)"
  using assms by (cases out rule: catch.cases) simp_all

subsection \<open>Capacities\<close>

lemma pickup_loop_contents:
  "package_point_contents (fst (pickup_loop prob c l t st pkgs)) = package_point_contents st"
  by (rule pickup_loop_rule) simp_all

lemma deliver_loop_contents:
  "package_point_contents (fst (deliver_loop prob c l t st pkgs)) = package_point_contents st"
  by (rule deliver_loop_rule) simp_all

text \<open>A pick-up loop adds at most one package for each listed one, to its courier only.\<close>

lemma pickup_loop_carried:
  "count_of (courier_packages (fst (pickup_loop prob c l t st pkgs)) c')
     \<le> count_of (courier_packages st c') + (if c' = c then int (length pkgs) else 0)"
proof -
  let ?P = "\<lambda>n s. count_of (courier_packages s c')
     \<le> count_of (courier_packages st c') + (if c' = c then int n else 0)"
  have "?P (0 + length pkgs) (fst (pickup_loop prob c l t st pkgs))"
  proof (rule pickup_loop_rule_aux [where P = ?P])
    show "?P 0 st" by simp
  qed auto
  then show ?thesis by (simp split: if_splits)
qed

lemma dropoff_loop_carried:
  "count_of (courier_packages (fst (dropoff_loop c l st pkgs)) c')
     \<le> count_of (courier_packages st c')"
proof (rule dropoff_loop_rule)
  show "count_of (courier_packages st c') \<le> count_of (courier_packages st c')" by simp
qed (auto simp: length_remove1)

lemma deliver_loop_carried:
  "count_of (courier_packages (fst (deliver_loop prob c l t st pkgs)) c')
     \<le> count_of (courier_packages st c')"
proof (rule deliver_loop_rule)
  show "count_of (courier_packages st c') \<le> count_of (courier_packages st c')" by simp
qed (auto simp: length_remove1)

text \<open>A drop-off loop adds at most one package for each listed one, to its package point.\<close>

lemma dropoff_loop_contents:
  "count_of (package_point_contents (fst (dropoff_loop c l st pkgs)) l')
     \<le> count_of (package_point_contents st l') + (if l' = l then int (length pkgs) else 0)"
proof -
  let ?P = "\<lambda>n s. count_of (package_point_contents s l')
     \<le> count_of (package_point_contents st l') + (if l' = l then int n else 0)"
  have "?P (0 + length pkgs) (fst (dropoff_loop c l st pkgs))"
  proof (rule dropoff_loop_rule_aux [where P = ?P])
    show "?P 0 st" by simp
  qed auto
  then show ?thesis by (simp split: if_splits)
qed

lemma counts_reject [simp]:
  "counts_within_capacity prob (reject st m) = counts_within_capacity prob st"
  by (simp add: counts_within_capacity_def)

lemma counts_update_completion_time [simp]:
  "counts_within_capacity prob (update_completion_time st t) = counts_within_capacity prob st"
  by (simp add: counts_within_capacity_def)

lemma process_pickup_counts:
  assumes "counts_within_capacity prob st"
  shows "counts_within_capacity prob (fst (process_pickup prob st a t))"
proof (rule process_pickup_cases)
  fix c l cr carried
  assume cr: "couriers prob c = Some cr" and carried: "courier_packages st c = Some carried"
    and le: "int (length carried) + int (length (listed_packages a)) \<le> c_capacity cr"
  let ?st = "fst (pickup_loop prob c l t st (listed_packages a))"
  have "count_of (courier_packages ?st c') \<le> c_capacity cr'"
    if "couriers prob c' = Some cr'" for c' cr'
  proof (cases "c' = c")
    case True
    with pickup_loop_carried [of prob c l t st "listed_packages a" c'] carried le cr that
    show ?thesis by simp
  next
    case False
    with pickup_loop_carried [of prob c l t st "listed_packages a" c'] assms that
    show ?thesis by (fastforce simp: counts_within_capacity_def)
  qed
  then show "counts_within_capacity prob ?st"
    using assms by (simp add: counts_within_capacity_def pickup_loop_contents)
qed (simp_all add: assms)

lemma process_dropoff_counts:
  assumes "counts_within_capacity prob st"
  shows "counts_within_capacity prob (fst (process_dropoff prob st a t))"
proof (rule process_dropoff_cases)
  fix c l loc cap contents
  assume loc: "locations prob l = Some loc" and cap: "l_capacity loc = Some cap"
    and contents: "package_point_contents st l = Some contents"
    and le: "int (length contents) + int (length (listed_packages a)) \<le> cap"
  let ?st = "fst (dropoff_loop c l st (listed_packages a))"
  have 1: "count_of (courier_packages ?st c') \<le> c_capacity cr'"
    if "couriers prob c' = Some cr'" for c' cr'
    using dropoff_loop_carried [of c l st "listed_packages a" c'] assms that
    by (fastforce simp: counts_within_capacity_def)
  have 2: "count_of (package_point_contents ?st l') \<le> cap'"
    if "locations prob l' = Some loc'" and "l_type loc' = ''package_point''"
      and "l_capacity loc' = Some cap'" for l' loc' cap'
  proof (cases "l' = l")
    case True
    with dropoff_loop_contents [of c l st "listed_packages a" l'] contents le loc cap that
    show ?thesis by simp
  next
    case False
    with dropoff_loop_contents [of c l st "listed_packages a" l'] assms that
    show ?thesis by (fastforce simp: counts_within_capacity_def)
  qed
  show "counts_within_capacity prob ?st"
    unfolding counts_within_capacity_def using 1 2 by blast
qed (simp_all add: assms)

lemma process_deliver_counts:
  assumes "counts_within_capacity prob st"
  shows "counts_within_capacity prob (fst (process_deliver prob st a t))"
proof (rule process_deliver_cases)
  fix c l
  let ?st = "fst (deliver_loop prob c l t st (listed_packages a))"
  have "count_of (courier_packages ?st c') \<le> c_capacity cr'"
    if "couriers prob c' = Some cr'" for c' cr'
    using deliver_loop_carried [of prob c l t st "listed_packages a" c'] assms that
    by (fastforce simp: counts_within_capacity_def)
  then show "counts_within_capacity prob ?st"
    using assms by (simp add: counts_within_capacity_def deliver_loop_contents)
qed (simp_all add: assms)

lemma process_move_counts:
  assumes "counts_within_capacity prob st"
  shows "counts_within_capacity prob (fst (process_move prob st a))"
  by (rule process_move_cases) (use assms in \<open>simp_all add: counts_within_capacity_def\<close>)

lemma process_wait_counts:
  assumes "counts_within_capacity prob st"
  shows "counts_within_capacity prob (fst (process_wait prob st a))"
  by (rule process_wait_cases) (simp_all add: assms)

lemma process_action_counts:
  assumes "counts_within_capacity prob st"
  shows "counts_within_capacity prob (process_action prob st a)"
proof (rule process_action_cases)
  fix t
  let ?st = "update_completion_time st t"
  have s: "counts_within_capacity prob ?st" using assms by simp
  show "counts_within_capacity prob (catch (process_pickup prob ?st a t))"
    by (rule catch_cases) (simp_all add: process_pickup_counts [OF s])
  show "counts_within_capacity prob (catch (process_dropoff prob ?st a t))"
    by (rule catch_cases) (simp_all add: process_dropoff_counts [OF s])
  show "counts_within_capacity prob (catch (process_deliver prob ?st a t))"
    by (rule catch_cases) (simp_all add: process_deliver_counts [OF s])
  show "counts_within_capacity prob (catch (process_move prob ?st a))"
    by (rule catch_cases) (simp_all add: process_move_counts [OF s])
  show "counts_within_capacity prob (catch (process_wait prob ?st a))"
    by (rule catch_cases) (simp_all add: process_wait_counts [OF s])
qed (simp_all add: assms)

lemma foldl_invariant:
  assumes "P s" and "\<And>s x. P s \<Longrightarrow> P (f s x)"
  shows "P (foldl f s xs)"
  using assms(1) by (induction xs arbitrary: s) (simp_all add: assms(2))

lemma process_all_counts:
  assumes "counts_within_capacity prob st"
  shows "counts_within_capacity prob (process_all prob st acts)"
  unfolding process_all_def
  by (rule foldl_invariant [where P = "counts_within_capacity prob"])
     (simp_all add: assms process_action_counts)

text \<open>At the start every courier carries nothing and every package point is empty.\<close>

lemma initialize_tracking_counts:
  "count_of (courier_packages (initialize_tracking prob) c) = 0
   \<and> count_of (package_point_contents (initialize_tracking prob) l) = 0"
proof -
  let ?P = "\<lambda>s. count_of (courier_packages s c) = 0
                \<and> count_of (package_point_contents s l) = 0"
  have 1: "?P (foldl init_location empty_state (map_locations prob))"
    by (rule foldl_invariant [where P = ?P]) (simp_all add: empty_state_def init_location_def)
  have 2: "?P (foldl (init_courier prob)
                (foldl init_location empty_state (map_locations prob)) (in_couriers prob))"
    by (rule foldl_invariant [where P = ?P, OF 1]) (simp add: init_courier_def)
  have "?P (foldl init_package (foldl (init_courier prob)
                (foldl init_location empty_state (map_locations prob)) (in_couriers prob))
              (in_packages prob))"
    by (rule foldl_invariant [where P = ?P, OF 2]) (simp add: init_package_def)
  then show ?thesis by (simp add: initialize_tracking_def)
qed

lemma well_formed_courier:
  assumes "well_formed prob" and "couriers prob c = Some cr"
  shows "1 \<le> c_capacity cr"
proof -
  from assms(2) have "cr \<in> set (in_couriers prob)"
    by (auto simp: couriers_def dest!: map_of_SomeD)
  with assms(1) show ?thesis
    by (simp add: well_formed_def list_all_iff)
qed

lemma well_formed_location:
  assumes "well_formed prob" and "locations prob l = Some loc"
    and "l_type loc = ''package_point''" and "l_capacity loc = Some cap"
  shows "1 \<le> cap"
proof -
  from assms(2) have "loc \<in> set (map_locations prob)"
    by (auto simp: locations_def dest!: map_of_SomeD)
  with assms(1,3,4) show ?thesis
    by (auto simp: well_formed_def list_all_iff)
qed

lemma counts_imp_within_capacity:
  "counts_within_capacity prob st \<Longrightarrow> within_capacity prob st"
  by (fastforce simp: counts_within_capacity_def within_capacity_def)

text \<open>
  C8. On a well-formed problem, after any number of actions of any list of actions,
  accepted or rejected, every courier carries at most its capacity and every package
  point holds at most its capacity. The sorted log of a run is such a list.
\<close>

theorem capacities_respected:
  assumes "well_formed prob"
  shows "within_capacity prob (process_all prob (initialize_tracking prob) (take n acts))"
proof -
  have "counts_within_capacity prob (initialize_tracking prob)"
    unfolding counts_within_capacity_def
    using well_formed_courier [OF assms] well_formed_location [OF assms]
    by (fastforce simp: initialize_tracking_counts)
  then show ?thesis
    by (intro counts_imp_within_capacity process_all_counts)
qed

theorem capacities_respected_witness:
  "well_formed ex_problem \<and>
   within_capacity ex_problem
     (process_all ex_problem (initialize_tracking ex_problem) (take 3 ex_log_drop))"
proof -
  have w: "well_formed ex_problem"
    by (simp add: well_formed_def ex_problem_def)
  show ?thesis
    using capacities_respected [OF w, of 3 ex_log_drop] w by simp
qed

subsection \<open>The status of a package\<close>

lemma status_of_simps [simp]:
  "status_of (reject st m) p = status_of st p"
  "status_of (update_completion_time st t) p = status_of st p"
  "status_of (st\<lparr>courier_positions := cp\<rparr>) p = status_of st p"
  by (simp_all add: status_of_def)

lemma consistent_simps [simp]:
  "consistent (reject st m) = consistent st"
  "consistent (update_completion_time st t) = consistent st"
  "consistent (st\<lparr>courier_positions := cp\<rparr>) = consistent st"
  by (simp_all add: consistent_def)

lemma only_step_refl [simp]: "only_step a b x x"
  by (simp add: only_step_def)

lemma legal_step_refl [simp]: "legal_step x x"
  by (cases "(x, x)" rule: legal_step.cases) auto

lemma only_step_legal:
  "only_step At_warehouse With_courier x y \<Longrightarrow> legal_step x y"
  "only_step With_courier At_package_point x y \<Longrightarrow> legal_step x y"
  "only_step With_courier Delivered x y \<Longrightarrow> legal_step x y"
  by (auto simp: only_step_def)

text \<open>A package that is listed by a courier is with that courier.\<close>

lemma consistent_carried:
  assumes "consistent st" and "courier_packages st c = Some carried" and "p \<in> set carried"
  obtains pst where "package_status st p = Some pst" and "status pst = With_courier"
    and "holder pst = c"
  using assms unfolding consistent_def by blast

lemma consistent_distinct:
  assumes "consistent st" and "courier_packages st c = Some carried"
  shows "distinct carried"
  using assms unfolding consistent_def by blast

lemma consistent_delivered:
  assumes "consistent st" and "p \<in> delivered_packages st"
  shows "status_of st p = Some Delivered"
  using assms unfolding consistent_def status_of_def by fastforce

text \<open>Taking a package from the warehouse.\<close>

lemma consistent_pickup:
  assumes c: "consistent s" and pst: "package_status s p = Some pst"
    and w: "status pst = At_warehouse" and carried: "courier_packages s c = Some carried"
  shows "consistent (s\<lparr>package_status := (package_status s)
                          (p \<mapsto> pst\<lparr>status := With_courier, holder := c\<rparr>),
                        courier_packages := (courier_packages s)(c \<mapsto> carried @ [p])\<rparr>)"
    (is "consistent ?s")
proof -
  have nowhere: "p \<notin> set xs" if "courier_packages s c' = Some xs" for c' xs
  proof
    assume "p \<in> set xs"
    with c that obtain q where "package_status s p = Some q" "status q = With_courier"
      by (rule consistent_carried)
    with pst w show False by simp
  qed
  have nd: "p \<notin> delivered_packages s"
    using consistent_delivered [OF c, of p] pst w by (auto simp: status_of_def)
  have 1: "distinct xs \<and> (\<forall>q \<in> set xs. \<exists>qst. package_status ?s q = Some qst \<and>
             status qst = With_courier \<and> holder qst = c')"
    if x: "courier_packages ?s c' = Some xs" for c' xs
  proof (cases "c' = c")
    case True
    with x have xs: "xs = carried @ [p]" by simp
    have "distinct carried" using c carried by (rule consistent_distinct)
    moreover have "\<exists>qst. package_status ?s q = Some qst \<and> status qst = With_courier \<and>
                     holder qst = c" if "q \<in> set carried" for q
    proof -
      from c carried that obtain qst where "package_status s q = Some qst"
        "status qst = With_courier" "holder qst = c"
        by (rule consistent_carried)
      moreover have "q \<noteq> p" using nowhere [OF carried] that by blast
      ultimately show ?thesis by simp
    qed
    ultimately show ?thesis
      using nowhere [OF carried] True xs by auto
  next
    case False
    with x have old: "courier_packages s c' = Some xs" by simp
    have "\<exists>qst. package_status ?s q = Some qst \<and> status qst = With_courier \<and>
            holder qst = c'" if "q \<in> set xs" for q
    proof -
      from c old that obtain qst where "package_status s q = Some qst"
        "status qst = With_courier" "holder qst = c'"
        by (rule consistent_carried)
      moreover have "q \<noteq> p" using nowhere [OF old] that by blast
      ultimately show ?thesis by simp
    qed
    with consistent_distinct [OF c old] show ?thesis by blast
  qed
  have 2: "\<exists>qst. package_status ?s q = Some qst \<and> status qst = Delivered"
    if "q \<in> delivered_packages ?s" for q
  proof -
    from that have d: "q \<in> delivered_packages s" by simp
    with nd have "q \<noteq> p" by blast
    moreover from c d obtain qst where "package_status s q = Some qst" "status qst = Delivered"
      unfolding consistent_def by blast
    ultimately show ?thesis by simp
  qed
  show ?thesis
    unfolding consistent_def using 1 2 by blast
qed

lemma consistent_pickup_raised:
  assumes c: "consistent s" and pst: "package_status s p = Some pst"
    and w: "status pst = At_warehouse"
  shows "consistent (s\<lparr>package_status := (package_status s)
                          (p \<mapsto> pst\<lparr>status := With_courier, holder := c\<rparr>)\<rparr>)"
    (is "consistent ?s")
proof -
  have nowhere: "p \<notin> set xs" if "courier_packages s c' = Some xs" for c' xs
  proof
    assume "p \<in> set xs"
    with c that obtain q where "package_status s p = Some q" "status q = With_courier"
      by (rule consistent_carried)
    with pst w show False by simp
  qed
  have nd: "p \<notin> delivered_packages s"
    using consistent_delivered [OF c, of p] pst w by (auto simp: status_of_def)
  have 1: "distinct xs \<and> (\<forall>q \<in> set xs. \<exists>qst. package_status ?s q = Some qst \<and>
             status qst = With_courier \<and> holder qst = c')"
    if x: "courier_packages ?s c' = Some xs" for c' xs
  proof -
    from x have old: "courier_packages s c' = Some xs" by simp
    have "\<exists>qst. package_status ?s q = Some qst \<and> status qst = With_courier \<and>
            holder qst = c'" if "q \<in> set xs" for q
    proof -
      from c old that obtain qst where "package_status s q = Some qst"
        "status qst = With_courier" "holder qst = c'"
        by (rule consistent_carried)
      moreover have "q \<noteq> p" using nowhere [OF old] that by blast
      ultimately show ?thesis by simp
    qed
    with consistent_distinct [OF c old] show ?thesis by blast
  qed
  have 2: "\<exists>qst. package_status ?s q = Some qst \<and> status qst = Delivered"
    if "q \<in> delivered_packages ?s" for q
  proof -
    from that have d: "q \<in> delivered_packages s" by simp
    with nd have "q \<noteq> p" by blast
    moreover from c d obtain qst where "package_status s q = Some qst" "status qst = Delivered"
      unfolding consistent_def by blast
    ultimately show ?thesis by simp
  qed
  show ?thesis
    unfolding consistent_def using 1 2 by blast
qed

text \<open>
  Taking a package out of the list of the courier that carries it, with a new entry in
  the status table; the package may join the delivered set if its new status says so.
\<close>

lemma consistent_remove:
  assumes c: "consistent s" and carried: "courier_packages s c = Some carried"
    and mem: "p \<in> set carried"
    and ps': "package_status s' = (package_status s)(p \<mapsto> pst')"
    and cp': "courier_packages s' = (courier_packages s)(c \<mapsto> remove1 p carried)"
    and d': "delivered_packages s' = delivered_packages s \<or>
             delivered_packages s' = insert p (delivered_packages s) \<and> status pst' = Delivered"
  shows "consistent s'"
proof -
  from c carried mem obtain pst where pst: "package_status s p = Some pst"
    "status pst = With_courier" "holder pst = c"
    by (rule consistent_carried)
  have dc: "distinct carried" using c carried by (rule consistent_distinct)
  have elsewhere: "p \<notin> set xs" if "courier_packages s c' = Some xs" and "c' \<noteq> c" for c' xs
  proof
    assume "p \<in> set xs"
    with c that(1) obtain q where "package_status s p = Some q" "holder q = c'"
      by (rule consistent_carried)
    with pst that(2) show False by simp
  qed
  have nd: "p \<notin> delivered_packages s"
    using consistent_delivered [OF c, of p] pst by (auto simp: status_of_def)
  have 1: "distinct xs \<and> (\<forall>q \<in> set xs. \<exists>qst. package_status s' q = Some qst \<and>
             status qst = With_courier \<and> holder qst = c')"
    if x: "courier_packages s' c' = Some xs" for c' xs
  proof (cases "c' = c")
    case True
    with x cp' have xs: "xs = remove1 p carried" by simp
    have "\<exists>qst. package_status s' q = Some qst \<and> status qst = With_courier \<and>
            holder qst = c" if "q \<in> set xs" for q
    proof -
      from that xs dc have q: "q \<in> set carried" "q \<noteq> p" by auto
      from c carried q(1) obtain qst where "package_status s q = Some qst"
        "status qst = With_courier" "holder qst = c"
        by (rule consistent_carried)
      with q(2) ps' show ?thesis by simp
    qed
    with dc xs True show ?thesis by auto
  next
    case False
    with x cp' have old: "courier_packages s c' = Some xs" by simp
    have "\<exists>qst. package_status s' q = Some qst \<and> status qst = With_courier \<and>
            holder qst = c'" if "q \<in> set xs" for q
    proof -
      from c old that obtain qst where "package_status s q = Some qst"
        "status qst = With_courier" "holder qst = c'"
        by (rule consistent_carried)
      moreover have "q \<noteq> p" using elsewhere [OF old False] that by blast
      ultimately show ?thesis using ps' by simp
    qed
    with consistent_distinct [OF c old] show ?thesis by blast
  qed
  have 2: "\<exists>qst. package_status s' q = Some qst \<and> status qst = Delivered"
    if q: "q \<in> delivered_packages s'" for q
  proof (cases "q = p")
    case True
    with q d' nd have "status pst' = Delivered" by auto
    with True ps' show ?thesis by simp
  next
    case False
    with q d' have d: "q \<in> delivered_packages s" by auto
    with c obtain qst where "package_status s q = Some qst" "status qst = Delivered"
      unfolding consistent_def by blast
    with False ps' show ?thesis by simp
  qed
  show ?thesis
    unfolding consistent_def using 1 2 by blast
qed

lemma only_step_extend:
  assumes "only_step a b x (Some a)" and "a \<noteq> b"
  shows "only_step a b x (Some b)"
  using assms by (auto simp: only_step_def)

text \<open>
  The loops: the tables stay consistent, and a status moves along the one edge of the
  loop or not at all.
\<close>

lemma pickup_loop_status:
  assumes "consistent st"
  shows "consistent (fst (pickup_loop prob c l t st pkgs)) \<and>
         (\<forall>q. only_step At_warehouse With_courier (status_of st q)
                (status_of (fst (pickup_loop prob c l t st pkgs)) q))"
proof (rule pickup_loop_rule)
  show "consistent st \<and>
        (\<forall>q. only_step At_warehouse With_courier (status_of st q) (status_of st q))"
    using assms by simp
next
  fix s m
  assume "consistent s \<and> (\<forall>q. only_step At_warehouse With_courier (status_of st q) (status_of s q))"
  then show "consistent (reject s m) \<and>
        (\<forall>q. only_step At_warehouse With_courier (status_of st q) (status_of (reject s m) q))"
    by simp
next
  fix s p pk pst carried
  assume q: "consistent s \<and> (\<forall>q. only_step At_warehouse With_courier (status_of st q) (status_of s q))"
    and pst: "package_status s p = Some pst" and w: "status pst = At_warehouse"
    and carried: "courier_packages s c = Some carried"
  let ?s = "s\<lparr>package_status := (package_status s)
                  (p \<mapsto> pst\<lparr>status := With_courier, holder := c\<rparr>),
                courier_packages := (courier_packages s)(c \<mapsto> carried @ [p])\<rparr>"
  have 1: "consistent ?s"
    using q pst w carried by (simp add: consistent_pickup)
  have "only_step At_warehouse With_courier (status_of st p) (Some At_warehouse)"
    using q pst w by (metis status_of_def option.simps(9))
  then have p: "only_step At_warehouse With_courier (status_of st p) (Some With_courier)"
    by (rule only_step_extend) simp
  have "only_step At_warehouse With_courier (status_of st x) (status_of ?s x)" for x
    using q p by (cases "x = p") (simp_all add: status_of_def)
  with 1 show "consistent ?s \<and>
        (\<forall>q. only_step At_warehouse With_courier (status_of st q) (status_of ?s q))"
    by blast
next
  fix s p pst
  assume q: "consistent s \<and> (\<forall>q. only_step At_warehouse With_courier (status_of st q) (status_of s q))"
    and pst: "package_status s p = Some pst" and w: "status pst = At_warehouse"
  let ?s = "s\<lparr>package_status := (package_status s)
                  (p \<mapsto> pst\<lparr>status := With_courier, holder := c\<rparr>)\<rparr>"
  have 1: "consistent ?s"
    using q pst w by (simp add: consistent_pickup_raised)
  have "only_step At_warehouse With_courier (status_of st p) (Some At_warehouse)"
    using q pst w by (metis status_of_def option.simps(9))
  then have p: "only_step At_warehouse With_courier (status_of st p) (Some With_courier)"
    by (rule only_step_extend) simp
  have "only_step At_warehouse With_courier (status_of st x) (status_of ?s x)" for x
    using q p by (cases "x = p") (simp_all add: status_of_def)
  with 1 show "consistent ?s \<and>
        (\<forall>q. only_step At_warehouse With_courier (status_of st q) (status_of ?s q))"
    by blast
qed

lemma only_step_remove:
  assumes c: "consistent s"
    and o: "\<forall>q. only_step With_courier b (status_of st q) (status_of s q)"
    and carried: "courier_packages s c = Some carried" and mem: "p \<in> set carried"
    and b: "With_courier \<noteq> b"
    and ps': "package_status s' = (package_status s)(p \<mapsto> pst')" and pst': "status pst' = b"
  shows "only_step With_courier b (status_of st x) (status_of s' x)"
proof (cases "x = p")
  case True
  from c carried mem obtain pst where "package_status s p = Some pst"
    "status pst = With_courier"
    by (rule consistent_carried)
  then have "status_of s p = Some With_courier" by (simp add: status_of_def)
  with o have "only_step With_courier b (status_of st p) (Some With_courier)" by metis
  then have "only_step With_courier b (status_of st p) (Some b)"
    using b by (rule only_step_extend)
  with True ps' pst' show ?thesis by (simp add: status_of_def)
next
  case False
  with ps' have "status_of s' x = status_of s x" by (simp add: status_of_def)
  with o show ?thesis by simp
qed

lemma dropoff_loop_status:
  assumes "consistent st"
  shows "consistent (fst (dropoff_loop c l st pkgs)) \<and>
         (\<forall>q. only_step With_courier At_package_point (status_of st q)
                (status_of (fst (dropoff_loop c l st pkgs)) q))"
proof (rule dropoff_loop_rule)
  show "consistent st \<and>
        (\<forall>q. only_step With_courier At_package_point (status_of st q) (status_of st q))"
    using assms by simp
next
  fix s m
  assume "consistent s \<and>
          (\<forall>q. only_step With_courier At_package_point (status_of st q) (status_of s q))"
  then show "consistent (reject s m) \<and>
        (\<forall>q. only_step With_courier At_package_point (status_of st q)
               (status_of (reject s m) q))"
    by simp
next
  fix s p pst carried contents
  assume q: "consistent s \<and>
          (\<forall>q. only_step With_courier At_package_point (status_of st q) (status_of s q))"
    and carried: "courier_packages s c = Some carried" and mem: "p \<in> set carried"
  from q have q1: "consistent s"
    and q2: "\<forall>q. only_step With_courier At_package_point (status_of st q) (status_of s q)"
    by blast+
  let ?s = "s\<lparr>package_status := (package_status s)
                  (p \<mapsto> pst\<lparr>status := At_package_point, holder := l\<rparr>),
                courier_packages := (courier_packages s)(c \<mapsto> remove1 p carried),
                package_point_contents := (package_point_contents s)(l \<mapsto> contents @ [p])\<rparr>"
  have 1: "consistent ?s"
    by (rule consistent_remove [where s = s and s' = ?s and c = c and p = p
          and pst' = "pst\<lparr>status := At_package_point, holder := l\<rparr>",
          OF q1 carried mem]) simp_all
  have 2: "only_step With_courier At_package_point (status_of st x) (status_of ?s x)" for x
    by (rule only_step_remove [where s = s and s' = ?s and c = c and p = p
          and pst' = "pst\<lparr>status := At_package_point, holder := l\<rparr>",
          OF q1 q2 carried mem]) simp_all
  from 1 2 show "consistent ?s \<and>
        (\<forall>q. only_step With_courier At_package_point (status_of st q) (status_of ?s q))"
    by blast
next
  fix s p pst carried
  assume q: "consistent s \<and>
          (\<forall>q. only_step With_courier At_package_point (status_of st q) (status_of s q))"
    and carried: "courier_packages s c = Some carried" and mem: "p \<in> set carried"
  from q have q1: "consistent s"
    and q2: "\<forall>q. only_step With_courier At_package_point (status_of st q) (status_of s q)"
    by blast+
  let ?s = "s\<lparr>package_status := (package_status s)
                  (p \<mapsto> pst\<lparr>status := At_package_point, holder := l\<rparr>),
                courier_packages := (courier_packages s)(c \<mapsto> remove1 p carried)\<rparr>"
  have 1: "consistent ?s"
    by (rule consistent_remove [where s = s and s' = ?s and c = c and p = p
          and pst' = "pst\<lparr>status := At_package_point, holder := l\<rparr>",
          OF q1 carried mem]) simp_all
  have 2: "only_step With_courier At_package_point (status_of st x) (status_of ?s x)" for x
    by (rule only_step_remove [where s = s and s' = ?s and c = c and p = p
          and pst' = "pst\<lparr>status := At_package_point, holder := l\<rparr>",
          OF q1 q2 carried mem]) simp_all
  from 1 2 show "consistent ?s \<and>
        (\<forall>q. only_step With_courier At_package_point (status_of st q) (status_of ?s q))"
    by blast
qed

lemma deliver_loop_status:
  assumes "consistent st"
  shows "consistent (fst (deliver_loop prob c l t st pkgs)) \<and>
         (\<forall>q. only_step With_courier Delivered (status_of st q)
                (status_of (fst (deliver_loop prob c l t st pkgs)) q))"
proof (rule deliver_loop_rule)
  show "consistent st \<and>
        (\<forall>q. only_step With_courier Delivered (status_of st q) (status_of st q))"
    using assms by simp
next
  fix s m
  assume "consistent s \<and>
          (\<forall>q. only_step With_courier Delivered (status_of st q) (status_of s q))"
  then show "consistent (reject s m) \<and>
        (\<forall>q. only_step With_courier Delivered (status_of st q) (status_of (reject s m) q))"
    by simp
next
  fix s p pk pst carried
  assume q: "consistent s \<and>
          (\<forall>q. only_step With_courier Delivered (status_of st q) (status_of s q))"
    and carried: "courier_packages s c = Some carried" and mem: "p \<in> set carried"
  from q have q1: "consistent s"
    and q2: "\<forall>q. only_step With_courier Delivered (status_of st q) (status_of s q)"
    by blast+
  let ?s = "s\<lparr>package_status := (package_status s)
                  (p \<mapsto> pst\<lparr>status := Delivered, holder := l, delivery_time := Some t\<rparr>),
                courier_packages := (courier_packages s)(c \<mapsto> remove1 p carried),
                delivered_packages := insert p (delivered_packages s)\<rparr>"
  have 1: "consistent ?s"
    by (rule consistent_remove [where s = s and s' = ?s and c = c and p = p
          and pst' = "pst\<lparr>status := Delivered, holder := l, delivery_time := Some t\<rparr>",
          OF q1 carried mem]) simp_all
  have 2: "only_step With_courier Delivered (status_of st x) (status_of ?s x)" for x
    by (rule only_step_remove [where s = s and s' = ?s and c = c and p = p
          and pst' = "pst\<lparr>status := Delivered, holder := l, delivery_time := Some t\<rparr>",
          OF q1 q2 carried mem]) simp_all
  from 1 2 show "consistent ?s \<and>
        (\<forall>q. only_step With_courier Delivered (status_of st q) (status_of ?s q))"
    by blast
qed

text \<open>One action: the tables stay consistent and every status takes a legal step.\<close>

lemma process_pickup_status:
  assumes "consistent st"
  shows "consistent (fst (process_pickup prob st a t)) \<and>
         (\<forall>q. legal_step (status_of st q) (status_of (fst (process_pickup prob st a t)) q))"
proof (rule process_pickup_cases)
  fix c l
  show "consistent (fst (pickup_loop prob c l t st (listed_packages a))) \<and>
        (\<forall>q. legal_step (status_of st q)
               (status_of (fst (pickup_loop prob c l t st (listed_packages a))) q))"
    using pickup_loop_status [OF assms, of prob c l t "listed_packages a"]
    by (blast intro: only_step_legal)
qed (simp_all add: assms)

lemma process_dropoff_status:
  assumes "consistent st"
  shows "consistent (fst (process_dropoff prob st a t)) \<and>
         (\<forall>q. legal_step (status_of st q) (status_of (fst (process_dropoff prob st a t)) q))"
proof (rule process_dropoff_cases)
  fix c l
  show "consistent (fst (dropoff_loop c l st (listed_packages a))) \<and>
        (\<forall>q. legal_step (status_of st q)
               (status_of (fst (dropoff_loop c l st (listed_packages a))) q))"
    using dropoff_loop_status [OF assms, of c l "listed_packages a"]
    by (blast intro: only_step_legal)
qed (simp_all add: assms)

lemma process_deliver_status:
  assumes "consistent st"
  shows "consistent (fst (process_deliver prob st a t)) \<and>
         (\<forall>q. legal_step (status_of st q) (status_of (fst (process_deliver prob st a t)) q))"
proof (rule process_deliver_cases)
  fix c l
  show "consistent (fst (deliver_loop prob c l t st (listed_packages a))) \<and>
        (\<forall>q. legal_step (status_of st q)
               (status_of (fst (deliver_loop prob c l t st (listed_packages a))) q))"
    using deliver_loop_status [OF assms, of prob c l t "listed_packages a"]
    by (blast intro: only_step_legal)
qed (simp_all add: assms)

lemma process_move_status:
  assumes "consistent st"
  shows "consistent (fst (process_move prob st a)) \<and>
         (\<forall>q. legal_step (status_of st q) (status_of (fst (process_move prob st a)) q))"
  by (rule process_move_cases) (simp_all add: assms)

lemma process_wait_status:
  assumes "consistent st"
  shows "consistent (fst (process_wait prob st a)) \<and>
         (\<forall>q. legal_step (status_of st q) (status_of (fst (process_wait prob st a)) q))"
  by (rule process_wait_cases) (simp_all add: assms)

lemma process_action_status:
  assumes "consistent st"
  shows "consistent (process_action prob st a) \<and>
         (\<forall>q. legal_step (status_of st q) (status_of (process_action prob st a) q))"
proof (rule process_action_cases)
  fix t
  let ?st = "update_completion_time st t"
  have s: "consistent ?st" using assms by simp
  have h: "consistent (catch out) \<and>
           (\<forall>q. legal_step (status_of st q) (status_of (catch out) q))"
    if "consistent (fst out) \<and>
        (\<forall>q. legal_step (status_of ?st q) (status_of (fst out) q))" for out
    using that by (cases out rule: catch.cases) simp_all
  show "consistent (catch (process_pickup prob ?st a t)) \<and>
        (\<forall>q. legal_step (status_of st q) (status_of (catch (process_pickup prob ?st a t)) q))"
    by (rule h) (rule process_pickup_status [OF s])
  show "consistent (catch (process_dropoff prob ?st a t)) \<and>
        (\<forall>q. legal_step (status_of st q) (status_of (catch (process_dropoff prob ?st a t)) q))"
    by (rule h) (rule process_dropoff_status [OF s])
  show "consistent (catch (process_deliver prob ?st a t)) \<and>
        (\<forall>q. legal_step (status_of st q) (status_of (catch (process_deliver prob ?st a t)) q))"
    by (rule h) (rule process_deliver_status [OF s])
  show "consistent (catch (process_move prob ?st a)) \<and>
        (\<forall>q. legal_step (status_of st q) (status_of (catch (process_move prob ?st a)) q))"
    by (rule h) (rule process_move_status [OF s])
  show "consistent (catch (process_wait prob ?st a)) \<and>
        (\<forall>q. legal_step (status_of st q) (status_of (catch (process_wait prob ?st a)) q))"
    by (rule h) (rule process_wait_status [OF s])
qed (simp_all add: assms)

lemma process_all_append:
  "process_all prob st (acts @ later) = process_all prob (process_all prob st acts) later"
  by (simp add: process_all_def)

lemma process_all_consistent:
  assumes "consistent st"
  shows "consistent (process_all prob st acts)"
  unfolding process_all_def
  by (rule foldl_invariant [where P = consistent])
     (simp_all add: assms process_action_status)

lemma initialize_tracking_consistent: "consistent (initialize_tracking prob)"
proof -
  have e: "carried = []" if "courier_packages (initialize_tracking prob) c = Some carried"
    for c carried
    using initialize_tracking_counts [of prob c c] that by simp
  show ?thesis
    unfolding consistent_def
  proof (intro conjI allI impI ballI)
    fix c carried
    assume "courier_packages (initialize_tracking prob) c = Some carried"
    then have "carried = []" by (rule e)
    then show "distinct carried" by simp
  next
    fix c carried p
    assume "courier_packages (initialize_tracking prob) c = Some carried"
    then have "carried = []" by (rule e)
    moreover assume "p \<in> set carried"
    ultimately show "\<exists>pst. package_status (initialize_tracking prob) p = Some pst \<and>
                 status pst = With_courier \<and> holder pst = c"
      by simp
  next
    fix p
    assume "p \<in> delivered_packages (initialize_tracking prob)"
    then show "\<exists>pst. package_status (initialize_tracking prob) p = Some pst \<and>
                 status pst = Delivered"
      by (simp add: initialize_tracking_fields)
  qed
qed

text \<open>Every package of the problem starts at the warehouse.\<close>

lemma init_package_status:
  "status_of (foldl init_package s ps) p =
     (if p \<in> p_id ` set ps then Some At_warehouse else status_of s p)"
  by (induction ps arbitrary: s) (auto simp: init_package_def status_of_def)

lemma initialize_tracking_status:
  assumes "p \<in> set (package_keys prob)"
  shows "status_of (initialize_tracking prob) p = Some At_warehouse"
  using assms by (simp add: initialize_tracking_def init_package_status package_keys_def)

lemma legal_step_final:
  "legal_step (Some At_package_point) y \<Longrightarrow> y = Some At_package_point"
  "legal_step (Some Delivered) y \<Longrightarrow> y = Some Delivered"
  by (cases "(Some At_package_point, y)" rule: legal_step.cases; auto)
     (cases "(Some Delivered, y)" rule: legal_step.cases; auto)

text \<open>At a package point, and delivered, are where a package stays.\<close>

lemma process_all_final:
  assumes "consistent st"
    and "status_of st p = Some At_package_point \<or> status_of st p = Some Delivered"
  shows "status_of (process_all prob st later) p = status_of st p"
  using assms
proof (induction later arbitrary: st)
  case Nil
  show ?case by (simp add: process_all_def)
next
  case (Cons a later)
  let ?st = "process_action prob st a"
  from process_action_status [OF Cons.prems(1), of prob a]
  have c: "consistent ?st" and l: "legal_step (status_of st p) (status_of ?st p)"
    by blast+
  from l Cons.prems(2) have e: "status_of ?st p = status_of st p"
    by (auto dest: legal_step_final)
  have "status_of (process_all prob ?st later) p = status_of ?st p"
    using Cons.IH [OF c] Cons.prems(2) e by simp
  with e show ?case by (simp add: process_all_def)
qed

text \<open>
  C1, as the code has it. From the initial state, where every package of the problem is
  at the warehouse, one action changes the status of a package along an edge of the graph
  at_warehouse \<open>\<rightarrow>\<close> with_courier \<open>\<rightarrow>\<close> at_package_point or delivered, or not at all. Both
  ends are final: whatever actions follow, a package at a package point stays at the
  package point and never joins the delivered set, and a delivered package stays
  delivered.
\<close>

theorem status_transitions:
  "(p \<in> set (package_keys prob)
      \<longrightarrow> status_of (initialize_tracking prob) p = Some At_warehouse)
   \<and> legal_step (status_of (process_all prob (initialize_tracking prob) acts) p)
        (status_of (process_action prob
           (process_all prob (initialize_tracking prob) acts) a) p)
   \<and> (status_of (process_all prob (initialize_tracking prob) acts) p = Some At_package_point
      \<longrightarrow> status_of (process_all prob (initialize_tracking prob) (acts @ later)) p
            = Some At_package_point
          \<and> p \<notin> delivered_packages (process_all prob (initialize_tracking prob) (acts @ later)))
   \<and> (status_of (process_all prob (initialize_tracking prob) acts) p = Some Delivered
      \<longrightarrow> status_of (process_all prob (initialize_tracking prob) (acts @ later)) p
            = Some Delivered)"
proof -
  let ?st = "process_all prob (initialize_tracking prob) acts"
  let ?st' = "process_all prob (initialize_tracking prob) (acts @ later)"
  have c: "consistent ?st"
    by (rule process_all_consistent) (rule initialize_tracking_consistent)
  have c': "consistent ?st'"
    by (rule process_all_consistent) (rule initialize_tracking_consistent)
  have 1: "legal_step (status_of ?st p) (status_of (process_action prob ?st a) p)"
    using process_action_status [OF c, of prob a] by blast
  have 2: "status_of ?st' p = Some At_package_point \<and> p \<notin> delivered_packages ?st'"
    if pp: "status_of ?st p = Some At_package_point"
  proof -
    have s: "status_of ?st' p = Some At_package_point"
      using process_all_final [OF c, of p prob later] pp by (simp add: process_all_append)
    moreover have "p \<notin> delivered_packages ?st'"
      using consistent_delivered [OF c', of p] s by auto
    ultimately show ?thesis by blast
  qed
  have 3: "status_of ?st' p = Some Delivered" if "status_of ?st p = Some Delivered"
    using process_all_final [OF c, of p prob later] that by (simp add: process_all_append)
  show ?thesis
    using initialize_tracking_status 1 2 3 by blast
qed

theorem status_transitions_witness:
  "''PKG1'' \<in> set (package_keys ex_problem)
   \<and> status_of (initialize_tracking ex_problem) ''PKG1'' = Some At_warehouse
   \<and> status_of (process_all ex_problem (initialize_tracking ex_problem) ex_log_drop) ''PKG1''
     = Some At_package_point
   \<and> status_of (process_all ex_problem (initialize_tracking ex_problem)
        (ex_log_drop @ [ex_at 3 ''pick_up'' ''P1'' [''PKG1''],
                        ex_move 4 (1, 0) (2, 0) [''PKG1''],
                        ex_at 5 ''deliver'' ''D1'' [''PKG1'']])) ''PKG1''
     = Some At_package_point
   \<and> ''PKG1'' \<notin> delivered_packages (process_all ex_problem (initialize_tracking ex_problem)
        (ex_log_drop @ [ex_at 3 ''pick_up'' ''P1'' [''PKG1''],
                        ex_move 4 (1, 0) (2, 0) [''PKG1''],
                        ex_at 5 ''deliver'' ''D1'' [''PKG1'']]))"
proof -
  have h: "status_of (process_all ex_problem (initialize_tracking ex_problem) ex_log_drop)
             ''PKG1'' = Some At_package_point"
    by code_simp
  have k: "''PKG1'' \<in> set (package_keys ex_problem)"
    by (simp add: package_keys_def ex_problem_def)
  show ?thesis
    using status_transitions [of "''PKG1''" ex_problem ex_log_drop
        "ex_at 3 ''pick_up'' ''P1'' [''PKG1'']"
        "[ex_at 3 ''pick_up'' ''P1'' [''PKG1''], ex_move 4 (1, 0) (2, 0) [''PKG1''],
          ex_at 5 ''deliver'' ''D1'' [''PKG1'']]"] h k
    by simp
qed

text \<open>
  The package of the small instance, dropped at the package point: no continuation of the
  log brings it back to a courier.
\<close>

theorem no_pick_up_from_package_point:
  "\<not> (\<exists>later. status_of (process_all ex_problem (initialize_tracking ex_problem)
                  (ex_log_drop @ later)) ''PKG1'' = Some With_courier)"
proof -
  let ?st = "process_all ex_problem (initialize_tracking ex_problem) ex_log_drop"
  have h: "status_of ?st ''PKG1'' = Some At_package_point"
    by code_simp
  have c: "consistent ?st"
    by (rule process_all_consistent) (rule initialize_tracking_consistent)
  have "status_of (process_all ex_problem ?st later) ''PKG1'' = Some At_package_point" for later
    using process_all_final [OF c, of "''PKG1''" ex_problem later] h by simp
  then show ?thesis
    by (simp add: process_all_append)
qed

end
